theory Spec2Isabelle
  imports Main
begin

section \<open>Objects with string keys\<close>

text \<open>
  The configuration objects of \<^verbatim>\<open>cldr.ts\<close> are plain JavaScript objects used as
  dictionaries. An object is modelled as the list of its own properties in insertion
  order, which is what \<^verbatim>\<open>Object.keys\<close> enumerates and what the spread syntax copies.
  A JavaScript object never has the same property name twice; \<open>wf_obj\<close> says so for a list.
  Reading a property that an object does not have itself gives \<^verbatim>\<open>undefined\<close>, or, for a
  name that \<^verbatim>\<open>Object.prototype\<close> defines, something inherited. The categories of
  \<^verbatim>\<open>Formats\<close> are \<^verbatim>\<open>number\<close>, \<^verbatim>\<open>date\<close> and \<^verbatim>\<open>time\<close>, which \<^verbatim>\<open>Object.prototype\<close> does not
  define. A preset name may be any string; what a category inherits under such a name
  is a function or \<^verbatim>\<open>Object.prototype\<close> itself, neither of which has an enumerable
  property, so under \<^verbatim>\<open>x || {}\<close> and a spread it adds as little as \<^verbatim>\<open>undefined\<close> does,
  and it is \<open>None\<close> as well. (Integer-like property names, which JavaScript enumerates
  first, do not occur among category, preset and option names.)
\<close>

type_synonym 'v obj = "(string \<times> 'v) list"

definition keys :: "'v obj \<Rightarrow> string list" where
  \<comment> \<open>\<^verbatim>\<open>Object.keys(ob)\<close>\<close>
  "keys ob = map fst ob"

definition get :: "'v obj \<Rightarrow> string \<Rightarrow> 'v option" where
  \<comment> \<open>\<^verbatim>\<open>ob[k]\<close>; \<open>None\<close> is \<^verbatim>\<open>undefined\<close>\<close>
  "get ob k = map_of ob k"

fun assign :: "string \<Rightarrow> 'v \<Rightarrow> 'v obj \<Rightarrow> 'v obj" where
  \<comment> \<open>own property \<open>k\<close> is set to \<open>v\<close>: an existing property keeps its place, a new one
      goes last; this is what a spread does for each property it copies\<close>
  "assign k v [] = [(k, v)]"
| "assign k v (p # ps) = (if fst p = k then (k, v) # ps else p # assign k v ps)"

definition assignProp :: "string \<Rightarrow> 'v \<Rightarrow> 'v obj \<Rightarrow> 'v obj" where
  \<comment> \<open>the assignment \<^verbatim>\<open>ob[k] = v\<close>. It sets the own property \<open>k\<close>, except that for
      \<^verbatim>\<open>__proto__\<close> on an object without an own property of that name it runs the setter
      inherited from \<^verbatim>\<open>Object.prototype\<close>, which changes the prototype and creates no
      property\<close>
  "assignProp k v ob = (if k = ''__proto__'' \<and> k \<notin> set (keys ob) then ob else assign k v ob)"

definition spread :: "'v obj \<Rightarrow> 'v obj \<Rightarrow> 'v obj" where
  \<comment> \<open>one \<^verbatim>\<open>...src\<close> inside an object literal whose properties so far are \<open>target\<close>\<close>
  "spread target src = fold (\<lambda>(k, v). assign k v) src target"

definition orEmpty :: "'v obj option \<Rightarrow> 'v obj" where
  \<comment> \<open>\<^verbatim>\<open>x || {}\<close> for \<open>x\<close> an object or \<^verbatim>\<open>undefined\<close>; spreading \<^verbatim>\<open>undefined\<close> adds nothing either\<close>
  "orEmpty x = (case x of None \<Rightarrow> [] | Some ob \<Rightarrow> ob)"

definition wf_obj :: "'v obj \<Rightarrow> bool" where
  "wf_obj ob = distinct (keys ob)"

section \<open>Config merger on values\<close>

text \<open>
  \<^verbatim>\<open>mergeConfig\<close> (lines 55-70) and \<^verbatim>\<open>mergeConfigs\<close> (lines 72-87), read as functions
  from object contents to object contents. An options record maps option names to
  values of any type \<open>'v\<close>; a category maps preset names to options records; a
  \<^verbatim>\<open>Formats\<close> object maps category names to categories. The absent second argument
  (\<^verbatim>\<open>undefined\<close>) is \<open>None\<close>.
\<close>

definition mergedPreset :: "'v obj obj \<Rightarrow> 'v obj obj \<Rightarrow> string \<Rightarrow> 'v obj" where
  \<comment> \<open>the object literal of lines 63-66: \<^verbatim>\<open>{...c1[k], ...(c2[k] || {})}\<close>\<close>
  "mergedPreset c1 c2 k = spread (spread [] (orEmpty (get c1 k))) (orEmpty (get c2 k))"

definition mergeConfig :: "'v obj obj \<Rightarrow> 'v obj obj option \<Rightarrow> 'v obj obj" where
  \<comment> \<open>lines 59-69: \<^verbatim>\<open>{...(c1 || {}), ...(c2 || {}), ...Object.keys(c1).reduce(...)}\<close>\<close>
  "mergeConfig c1 c2 =
     (case c2 of
        None \<Rightarrow> c1
      | Some c2' \<Rightarrow>
          spread (spread (spread [] c1) c2')
            (fold (\<lambda>k all. assignProp k (mergedPreset c1 c2' k) all) (keys c1) []))"

definition mergeConfigs :: "'v obj obj obj \<Rightarrow> 'v obj obj obj option \<Rightarrow> 'v obj obj obj" where
  \<comment> \<open>\<open>k\<close> ranges over the keys of \<open>defaultConfig\<close>, so \<^verbatim>\<open>defaultConfig[k]\<close> is never
      \<^verbatim>\<open>undefined\<close>: the \<open>None\<close> branch is not reached (lemma \<open>key_has_value\<close>); the
      accumulator starts as a copy of \<open>defaultConfig\<close> and so has every \<open>k\<close> as a property
      of its own\<close>
  "mergeConfigs defaultConfig configs =
     (case configs of
        None \<Rightarrow> defaultConfig
      | Some configs' \<Rightarrow>
          fold (\<lambda>k all. case get defaultConfig k of
                           None \<Rightarrow> all
                         | Some c1 \<Rightarrow> assignProp k (mergeConfig c1 (get configs' k)) all)
            (keys defaultConfig) (spread [] defaultConfig))"

definition wf_presets :: "'v obj obj \<Rightarrow> bool" where
  "wf_presets c = (wf_obj c \<and> list_all (\<lambda>(p, opts). wf_obj opts) c)"

definition wf_formats :: "'v obj obj obj \<Rightarrow> bool" where
  "wf_formats F = (wf_obj F \<and> list_all (\<lambda>(k, c). wf_presets c) F)"

definition overridePresets :: "'v obj obj obj option \<Rightarrow> string \<Rightarrow> string set" where
  \<comment> \<open>the preset names the overrides give for category \<open>k\<close>\<close>
  "overridePresets configs k =
     (case configs of
        None \<Rightarrow> {}
      | Some configs' \<Rightarrow> (case get configs' k of None \<Rightarrow> {} | Some c2 \<Rightarrow> set (keys c2)))"

definition numberDefaults :: "string obj obj obj" where
  \<comment> \<open>the \<^verbatim>\<open>number\<close> category of the built-in defaults (lines 251-259)\<close>
  "numberDefaults =
     [(''number'', [(''currency'', [(''style'', ''currency'')]),
                    (''percent'', [(''style'', ''percent'')])])]"

definition usdOverrides :: "string obj obj obj" where
  \<comment> \<open>a caller's overrides: tune preset \<^verbatim>\<open>currency\<close>, bring a preset \<^verbatim>\<open>compact\<close> of their own\<close>
  "usdOverrides =
     [(''number'', [(''currency'', [(''currency'', ''USD'')]),
                    (''compact'', [(''notation'', ''compact'')])])]"

section \<open>Config merger on the store\<close>

text \<open>
  The default configuration is a shared, mutable object (\<^verbatim>\<open>static formats\<close>, line 250),
  and \<^verbatim>\<open>mergeConfig\<close>/\<^verbatim>\<open>mergeConfigs\<close> return one of their arguments in some branches
  and a newly built object in others. Which objects an instance shares with the defaults
  is therefore part of the behaviour. The store keeps the three kinds of configuration
  object apart: options records (option name to value), categories (preset name to the
  address of an options record) and \<^verbatim>\<open>Formats\<close> objects (category name to the address
  of a category). An address is an index into the list of its kind; a new object goes at
  the end. An index beyond the end names no object and reads as an object without
  properties; \<open>heap_ok\<close> below excludes such addresses, as JavaScript does.
\<close>

type_synonym addr = nat

record 'v heap =
  optionsObjs :: "'v obj list"
  presetObjs :: "addr obj list"
  formatsObjs :: "addr obj list"

definition optionsAt :: "'v heap \<Rightarrow> addr \<Rightarrow> 'v obj" where
  "optionsAt h a = (if a < length (optionsObjs h) then optionsObjs h ! a else [])"

definition presetsAt :: "'v heap \<Rightarrow> addr \<Rightarrow> addr obj" where
  "presetsAt h a = (if a < length (presetObjs h) then presetObjs h ! a else [])"

definition formatsAt :: "'v heap \<Rightarrow> addr \<Rightarrow> addr obj" where
  "formatsAt h a = (if a < length (formatsObjs h) then formatsObjs h ! a else [])"

definition newOptions :: "'v obj \<Rightarrow> 'v heap \<Rightarrow> addr \<times> 'v heap" where
  "newOptions ob h = (length (optionsObjs h), h\<lparr>optionsObjs := optionsObjs h @ [ob]\<rparr>)"

definition newPresets :: "addr obj \<Rightarrow> 'v heap \<Rightarrow> addr \<times> 'v heap" where
  "newPresets ob h = (length (presetObjs h), h\<lparr>presetObjs := presetObjs h @ [ob]\<rparr>)"

definition newFormats :: "addr obj \<Rightarrow> 'v heap \<Rightarrow> addr \<times> 'v heap" where
  "newFormats ob h = (length (formatsObjs h), h\<lparr>formatsObjs := formatsObjs h @ [ob]\<rparr>)"

text \<open>Property assignment \<^verbatim>\<open>ob[k] = v\<close> on the object at an address.\<close>

definition setOptionsProp :: "addr \<Rightarrow> string \<Rightarrow> 'v \<Rightarrow> 'v heap \<Rightarrow> 'v heap" where
  "setOptionsProp a k v h =
     h\<lparr>optionsObjs := (optionsObjs h)[a := assignProp k v (optionsAt h a)]\<rparr>"

definition setFormatsProp :: "addr \<Rightarrow> string \<Rightarrow> addr \<Rightarrow> 'v heap \<Rightarrow> 'v heap" where
  "setFormatsProp a k r h =
     h\<lparr>formatsObjs := (formatsObjs h)[a := assignProp k r (formatsAt h a)]\<rparr>"

text \<open>Any in-place change of the object at an address: its properties become \<open>ob\<close>.\<close>

definition overwriteOptions :: "addr \<Rightarrow> 'v obj \<Rightarrow> 'v heap \<Rightarrow> 'v heap" where
  "overwriteOptions a ob h = h\<lparr>optionsObjs := (optionsObjs h)[a := ob]\<rparr>"

definition overwritePresets :: "addr \<Rightarrow> addr obj \<Rightarrow> 'v heap \<Rightarrow> 'v heap" where
  "overwritePresets a ob h = h\<lparr>presetObjs := (presetObjs h)[a := ob]\<rparr>"

definition overwriteFormats :: "addr \<Rightarrow> addr obj \<Rightarrow> 'v heap \<Rightarrow> 'v heap" where
  "overwriteFormats a ob h = h\<lparr>formatsObjs := (formatsObjs h)[a := ob]\<rparr>"

definition optionsOrEmpty :: "'v heap \<Rightarrow> addr option \<Rightarrow> 'v obj" where
  "optionsOrEmpty h r = (case r of None \<Rightarrow> [] | Some a \<Rightarrow> optionsAt h a)"

definition mergePreset_h ::
  "addr obj \<Rightarrow> addr obj \<Rightarrow> string \<Rightarrow> addr obj \<times> 'v heap \<Rightarrow> addr obj \<times> 'v heap" where
  \<comment> \<open>the reducer of lines 62-68: a new options record for preset \<open>k\<close>, then the
      assignment \<^verbatim>\<open>all[k] = ...\<close> of line 63. The accumulator starts as \<^verbatim>\<open>{}\<close>, so for a
      preset named \<^verbatim>\<open>__proto__\<close> the assignment stores nothing in it and the new record
      is dropped\<close>
  "mergePreset_h f1 f2 k = (\<lambda>(all, h).
     let (a, h') = newOptions (spread (spread [] (optionsOrEmpty h (get f1 k)))
                                 (optionsOrEmpty h (get f2 k))) h
     in (assignProp k a all, h'))"

definition mergeConfig_h :: "'v heap \<Rightarrow> addr \<Rightarrow> addr option \<Rightarrow> addr \<times> 'v heap" where
  \<comment> \<open>lines 55-70; \<open>f1\<close>, \<open>f2\<close> are the properties of \<open>c1\<close>, \<open>c2\<close>, which the function
      only reads; the reducer's accumulator \<open>all\<close> is a temporary and stays a value\<close>
  "mergeConfig_h h c1 c2 =
     (case c2 of
        None \<Rightarrow> (c1, h)
      | Some c2' \<Rightarrow>
          let f1 = presetsAt h c1; f2 = presetsAt h c2';
              (all, h1) = fold (mergePreset_h f1 f2) (keys f1) ([], h)
          in newPresets (spread (spread (spread [] f1) f2) all) h1)"

definition mergeCategory_h :: "addr \<Rightarrow> addr obj \<Rightarrow> addr obj \<Rightarrow> string \<Rightarrow> 'v heap \<Rightarrow> 'v heap" where
  \<comment> \<open>the reducer of lines 81-84, writing into the new object at \<open>target\<close>\<close>
  "mergeCategory_h target fD fO k h =
     (case get fD k of
        None \<Rightarrow> h
      | Some c1 \<Rightarrow> let (r, h') = mergeConfig_h h c1 (get fO k) in setFormatsProp target k r h')"

definition mergeConfigs_h :: "'v heap \<Rightarrow> addr \<Rightarrow> addr option \<Rightarrow> addr \<times> 'v heap" where
  \<comment> \<open>lines 72-87; the accumulator \<^verbatim>\<open>{...defaultConfig}\<close> is the new object \<open>target\<close>;
      the loop writes to no other \<^verbatim>\<open>Formats\<close> object, so the properties \<open>fD\<close>, \<open>fO\<close> of
      \<open>defaultConfig\<close> and \<open>configs\<close> are read once\<close>
  "mergeConfigs_h h defaultConfig configs =
     (case configs of
        None \<Rightarrow> (defaultConfig, h)
      | Some configs' \<Rightarrow>
          let fD = formatsAt h defaultConfig; fO = formatsAt h configs';
              (target, h0) = newFormats (spread [] fD) h
          in (target, fold (mergeCategory_h target fD fO) (keys fD) h0))"

text \<open>The contents of a category and of a \<^verbatim>\<open>Formats\<close> object, read through the store.\<close>

definition readObj :: "'v heap \<Rightarrow> addr obj \<Rightarrow> 'v obj obj" where
  "readObj h ob = map (\<lambda>(p, b). (p, optionsAt h b)) ob"

definition readPresets :: "'v heap \<Rightarrow> addr \<Rightarrow> 'v obj obj" where
  "readPresets h a = readObj h (presetsAt h a)"

definition readCategories :: "'v heap \<Rightarrow> addr obj \<Rightarrow> 'v obj obj obj" where
  "readCategories h ob = map (\<lambda>(k, c). (k, readPresets h c)) ob"

definition readFormats :: "'v heap \<Rightarrow> addr \<Rightarrow> 'v obj obj obj" where
  "readFormats h a = readCategories h (formatsAt h a)"

text \<open>
  In a well-formed store every stored address names an object. An operation that only
  creates objects makes the store grow: what was there stays where it was.
\<close>

definition valid_presets :: "'v heap \<Rightarrow> addr obj \<Rightarrow> bool" where
  "valid_presets h ob = list_all (\<lambda>(p, b). b < length (optionsObjs h)) ob"

definition valid_formats :: "'v heap \<Rightarrow> addr obj \<Rightarrow> bool" where
  "valid_formats h ob = list_all (\<lambda>(k, c). c < length (presetObjs h)) ob"

definition heap_ok :: "'v heap \<Rightarrow> bool" where
  "heap_ok h =
     (list_all (valid_presets h) (presetObjs h) \<and> list_all (valid_formats h) (formatsObjs h))"

definition heap_grows :: "'v heap \<Rightarrow> 'v heap \<Rightarrow> bool" where
  "heap_grows h h' =
     ((\<exists>N. optionsObjs h' = optionsObjs h @ N) \<and> (\<exists>P. presetObjs h' = presetObjs h @ P) \<and>
      formatsObjs h' = formatsObjs h)"

definition heap_grows_except :: "addr \<Rightarrow> 'v heap \<Rightarrow> 'v heap \<Rightarrow> bool" where
  \<comment> \<open>growth during which the \<^verbatim>\<open>Formats\<close> object at \<open>t\<close> may be written\<close>
  "heap_grows_except t h h' =
     ((\<exists>N. optionsObjs h' = optionsObjs h @ N) \<and> (\<exists>P. presetObjs h' = presetObjs h @ P) \<and>
      length (formatsObjs h') = length (formatsObjs h) \<and>
      (\<forall>a. a \<noteq> t \<longrightarrow> formatsAt h' a = formatsAt h a))"

text \<open>
  What an instance constructed in store \<open>h\<close> from the defaults at \<open>D\<close> and the overrides at
  \<open>ov\<close> keeps by reference. For a category the overrides do not name, \<^verbatim>\<open>mergeConfig\<close>
  returns the category of the defaults itself (line 57). For a category they name it
  builds a new one; its options records are new, except that the spreads of lines 59-61
  copy by reference the presets that the reducer does not replace: those that only the
  overrides have, and a preset named \<^verbatim>\<open>__proto__\<close>, which the reducer cannot store.
\<close>

definition sharedCategories :: "'v heap \<Rightarrow> addr \<Rightarrow> addr \<Rightarrow> addr set" where
  \<comment> \<open>the categories of the defaults that the overrides do not name\<close>
  "sharedCategories h D ov =
     snd ` set (filter (\<lambda>(k, c). get (formatsAt h ov) k = None) (formatsAt h D))"

definition keptPresets :: "addr obj \<Rightarrow> addr obj \<Rightarrow> addr obj" where
  \<comment> \<open>the presets that the merge of a category with properties \<open>f1\<close> and one with
      properties \<open>f2\<close> takes over as they are: of \<open>f2\<close> those that \<open>f1\<close> does not have and
      the one named \<^verbatim>\<open>__proto__\<close>; of \<open>f1\<close> the one named \<^verbatim>\<open>__proto__\<close> if \<open>f2\<close> has none\<close>
  "keptPresets f1 f2 =
     filter (\<lambda>(p, b). p \<notin> set (keys f1) \<or> p = ''__proto__'') f2 @
     filter (\<lambda>(p, b). p = ''__proto__'' \<and> p \<notin> set (keys f2)) f1"

definition keptRecords :: "'v heap \<Rightarrow> addr \<Rightarrow> addr \<Rightarrow> addr set" where
  \<comment> \<open>the options records that existed before the merge and are in its result: for
      each category of the defaults, all its records if the overrides do not name it,
      and else the records of the presets taken over as they are\<close>
  "keptRecords h D ov =
     (\<Union>(k, c1) \<in> set (formatsAt h D).
        case get (formatsAt h ov) k of
          None \<Rightarrow> snd ` set (presetsAt h c1)
        | Some c2 \<Rightarrow> snd ` set (keptPresets (presetsAt h c1) (presetsAt h c2)))"

definition insulated :: "'v heap \<Rightarrow> addr set \<Rightarrow> 'v heap \<Rightarrow> addr \<Rightarrow> bool" where
  \<comment> \<open>the category at \<open>c\<close> was created after \<open>h\<close>, and each of its options records was
      created after \<open>h\<close> or is one of \<open>shared\<close>\<close>
  "insulated h shared h' c =
     (length (presetObjs h) \<le> c \<and>
      (\<forall>(p, b) \<in> set (presetsAt h' c). length (optionsObjs h) \<le> b \<or> b \<in> shared))"

definition staticFormatsHeap :: "string heap" where
  \<comment> \<open>the store after the initialiser of \<^verbatim>\<open>static formats\<close> (lines 250-314): the
      default \<^verbatim>\<open>Formats\<close> object is at address 0\<close>
  "staticFormatsHeap = \<lparr>
     optionsObjs = [
       [(''style'', ''currency'')],
       [(''style'', ''percent'')],
       [(''month'', ''numeric''), (''day'', ''numeric''), (''year'', ''2-digit'')],
       [(''month'', ''short''), (''day'', ''numeric''), (''year'', ''numeric'')],
       [(''month'', ''long''), (''day'', ''numeric''), (''year'', ''numeric'')],
       [(''weekday'', ''long''), (''month'', ''long''), (''day'', ''numeric''),
        (''year'', ''numeric'')],
       [(''hour'', ''numeric''), (''minute'', ''numeric'')],
       [(''hour'', ''numeric''), (''minute'', ''numeric''), (''second'', ''numeric'')],
       [(''hour'', ''numeric''), (''minute'', ''numeric''), (''second'', ''numeric''),
        (''timeZoneName'', ''short'')],
       [(''hour'', ''numeric''), (''minute'', ''numeric''), (''second'', ''numeric''),
        (''timeZoneName'', ''short'')]],
     presetObjs = [
       [(''currency'', 0), (''percent'', 1)],
       [(''short'', 2), (''medium'', 3), (''long'', 4), (''full'', 5)],
       [(''short'', 6), (''medium'', 7), (''long'', 8), (''full'', 9)]],
     formatsObjs = [[(''number'', 0), (''date'', 1), (''time'', 2)]] \<rparr>"

section \<open>Output parts and \<^verbatim>\<open>format\<close>\<close>

text \<open>
  \<^verbatim>\<open>MessageFormatPart\<close> and \<^verbatim>\<open>PART_TYPE\<close> come from \<^verbatim>\<open>./formatters\<close>: a part is a
  literal part carrying a string or an object part carrying a value of the caller's
  type \<^verbatim>\<open>T\<close>. At run time such a value is a string or it is not, and line 207
  (\<^verbatim>\<open>typeof ... !== 'string'\<close>) looks at exactly that, so a value is \<open>Str\<close> or \<open>Obj\<close>.
\<close>

datatype 'a val = Str string | Obj 'a

datatype part_type = literal | object

datatype 'a part = LiteralPart string | ObjectPart "'a val"

fun ptype :: "'a part \<Rightarrow> part_type" where
  "ptype (LiteralPart s) = literal"
| "ptype (ObjectPart v) = object"

fun pvalue :: "'a part \<Rightarrow> 'a val" where
  "pvalue (LiteralPart s) = Str s"
| "pvalue (ObjectPart v) = v"

fun isString :: "'a val \<Rightarrow> bool" where
  "isString (Str s) = True"
| "isString (Obj x) = False"

fun plusAssign :: "'a val \<Rightarrow> 'a val \<Rightarrow> 'a val option" where
  \<comment> \<open>\<^verbatim>\<open>+=\<close> on two strings; line 211 applies it to nothing else\<close>
  "plusAssign (Str s) (Str t) = Some (Str (s @ t))"
| "plusAssign _ _ = None"

definition pushPart :: "'a val list \<Rightarrow> 'a part \<Rightarrow> 'a val list" where
  \<comment> \<open>the reducer of lines 203-214\<close>
  "pushPart all part =
     (if all = [] \<or> ptype part \<noteq> literal \<or> \<not> isString (last all)
      then all @ [pvalue part]
      else (case plusAssign (last all) (pvalue part) of
              Some v \<Rightarrow> butlast all @ [v]
            | None \<Rightarrow> all))"

fun truthy :: "('a \<Rightarrow> bool) \<Rightarrow> 'a val \<Rightarrow> bool" where
  \<comment> \<open>JavaScript truthiness: a string is falsy when empty; for a value of type \<^verbatim>\<open>T\<close>
      the caller's type decides\<close>
  "truthy objTruthy (Str s) = (s \<noteq> [])"
| "truthy objTruthy (Obj x) = objTruthy x"

datatype 'a formatted = Single "'a val" | Sequence "'a val list"

definition formatParts :: "('a \<Rightarrow> bool) \<Rightarrow> 'a part list \<Rightarrow> 'a formatted" where
  \<comment> \<open>lines 199-219, after \<open>parts\<close> has been computed\<close>
  "formatParts objTruthy parts =
     (if length parts = 1 then Single (pvalue (parts ! 0))
      else
        let result = fold (\<lambda>part all. pushPart all part) parts []
        in if length result \<le> 1
           then (case result of
                   [] \<Rightarrow> Single (Str [])
                 | v # _ \<Rightarrow> if truthy objTruthy v then Single v else Single (Str []))
           else Sequence result)"

text \<open>
  What the specification calls coalescing, written without the accumulator: an element
  that is a string takes up the literal parts that follow it directly; any other part
  is an element of its own.
\<close>

fun isLiteral :: "'a part \<Rightarrow> bool" where
  "isLiteral (LiteralPart s) = True"
| "isLiteral (ObjectPart v) = False"

fun literalText :: "'a part \<Rightarrow> string" where
  "literalText (LiteralPart s) = s"
| "literalText (ObjectPart v) = []"

function coalesceRuns :: "'a part list \<Rightarrow> 'a val list" where
  "coalesceRuns [] = []"
| "coalesceRuns (p # ps) =
     (case pvalue p of
        Obj x \<Rightarrow> Obj x # coalesceRuns ps
      | Str s \<Rightarrow> Str (s @ concat (map literalText (takeWhile isLiteral ps)))
                  # coalesceRuns (dropWhile isLiteral ps))"
  by pat_completeness auto
termination
  by (relation "measure length") (auto simp: length_dropWhile_le less_Suc_eq_le)

section \<open>The message facade\<close>

text \<open>
  Class \<^verbatim>\<open>IntlMessageFormat\<close> (lines 148-315). Its static members are process-wide
  state: the parser reference \<^verbatim>\<open>__parse\<close>, the reference \<^verbatim>\<open>formats\<close> to the default
  configuration and the memoised default locale. The parser, the interpreter
  \<^verbatim>\<open>formatToParts\<close> of \<^verbatim>\<open>./formatters\<close> and the \<^verbatim>\<open>Intl\<close> primitives are external; they
  enter as parameters. AST elements, formatter sets, argument values and rich values are
  type parameters.

  The type of \<^verbatim>\<open>message\<close> is \<^verbatim>\<open>string | MessageFormatElement[]\<close>; line 180 guards
  against a caller that passes something else, which is \<open>NotAMessage\<close>. An instance has
  the fields of lines 149-153. Its \<^verbatim>\<open>formats\<close> is a reference into the store. Its
  \<^verbatim>\<open>formatters\<close> are the caller's (\<^verbatim>\<open>opts.formatters\<close>) or the default ones over the
  instance's own cache, which the section on the formatter cache describes.
\<close>

datatype error = TypeError string | SyntaxError string | RangeError string | FormatError string

datatype locales = Locale string | LocaleList "string list"

datatype 'e message = Text string | Ast "'e list" | NotAMessage

datatype 'f formatters = OptsFormatters 'f | DefaultFormatters

record 'f Options =
  opt_formatters :: "'f option"
  opt_ignoreTag :: "bool option"

record 'e statics =
  static_parse :: "(string \<Rightarrow> bool option \<Rightarrow> error + 'e list) option"
  static_formats :: addr
  memoizedDefaultLocale :: "string option"

record ('e, 'f) IntlMessageFormat =
  ast :: "'e list"
  locales :: locales
  formatters :: "'f formatters"
  formats :: addr
  message :: "string option"

record resolved =
  resolved_locale :: "string option"

definition defaultLocale :: "string \<Rightarrow> 'e statics \<Rightarrow> string \<times> 'e statics" where
  \<comment> \<open>the static getter of lines 239-245; \<open>systemLocale\<close> is what
      \<^verbatim>\<open>new Intl.NumberFormat().resolvedOptions().locale\<close> yields; \<^verbatim>\<open>null\<close> and the empty
      string are falsy\<close>
  "defaultLocale systemLocale st =
     (if memoizedDefaultLocale st = None \<or> memoizedDefaultLocale st = Some []
      then (systemLocale, st\<lparr>memoizedDefaultLocale := Some systemLocale\<rparr>)
      else (case memoizedDefaultLocale st of Some l \<Rightarrow> (l, st) | None \<Rightarrow> (systemLocale, st)))"

definition ignoreTagOf :: "'f Options option \<Rightarrow> bool option" where
  \<comment> \<open>\<^verbatim>\<open>opts?.ignoreTag\<close>\<close>
  "ignoreTagOf opts = (case opts of None \<Rightarrow> None | Some os \<Rightarrow> opt_ignoreTag os)"

definition formattersOf :: "'f Options option \<Rightarrow> 'f formatters" where
  \<comment> \<open>lines 191-192: \<^verbatim>\<open>(opts && opts.formatters) || createDefaultFormatters(...)\<close>\<close>
  "formattersOf opts =
     (case opts of
        None \<Rightarrow> DefaultFormatters
      | Some os \<Rightarrow> (case opt_formatters os of None \<Rightarrow> DefaultFormatters | Some f \<Rightarrow> OptsFormatters f))"

definition readMessage ::
  "'e statics \<Rightarrow> 'e message \<Rightarrow> 'f Options option \<Rightarrow> error + (string option \<times> 'e list option)" where
  \<comment> \<open>lines 165-178: the stored message text and the AST, \<open>None\<close> for what is no array\<close>
  "readMessage st msg opts =
     (case msg of
        Text s \<Rightarrow>
          (case static_parse st of
             None \<Rightarrow> Inl (TypeError ''IntlMessageFormat.__parse must be set to process `message` of type `string`'')
           | Some p \<Rightarrow> (case p s (ignoreTagOf opts) of
                          Inl e \<Rightarrow> Inl e
                        | Inr a \<Rightarrow> Inr (Some s, Some a)))
      | Ast a \<Rightarrow> Inr (None, Some a)
      | NotAMessage \<Rightarrow> Inr (None, None))"

definition constructor ::
  "string \<Rightarrow> 'e statics \<Rightarrow> 'v heap \<Rightarrow> 'e message \<Rightarrow> locales option \<Rightarrow> addr option
     \<Rightarrow> 'f Options option \<Rightarrow> (error + ('e, 'f) IntlMessageFormat) \<times> 'e statics \<times> 'v heap" where
  \<comment> \<open>lines 159-193; the default of parameter \<open>locales\<close> is evaluated first, so the
      default locale stays memoised even when construction fails\<close>
  "constructor systemLocale st h msg locs overrideFormats opts =
     (let (locs', st1) =
            (case locs of
               None \<Rightarrow> (let (l, s) = defaultLocale systemLocale st in (Locale l, s))
             | Some ls \<Rightarrow> (ls, st))
      in case readMessage st1 msg opts of
           Inl e \<Rightarrow> (Inl e, st1, h)
         | Inr (m, None) \<Rightarrow>
             (Inl (TypeError ''A message must be provided as a String or AST.''), st1, h)
         | Inr (m, Some a) \<Rightarrow>
             (let (f, h') = mergeConfigs_h h (static_formats st1) overrideFormats
              in (Inr \<lparr>ast = a, locales = locs', formatters = formattersOf opts,
                       formats = f, message = m\<rparr>, st1, h')))"

definition formatToParts ::
  "('v heap \<Rightarrow> 'e list \<Rightarrow> locales \<Rightarrow> 'f formatters \<Rightarrow> addr \<Rightarrow> 'vals \<Rightarrow> string option
       \<Rightarrow> error + 'a part list)
     \<Rightarrow> 'v heap \<Rightarrow> ('e, 'f) IntlMessageFormat \<Rightarrow> 'vals \<Rightarrow> error + 'a part list" where
  \<comment> \<open>lines 221-232; \<open>interp\<close> is \<^verbatim>\<open>formatToParts\<close> of \<^verbatim>\<open>./formatters\<close>, which reads the
      configuration through the store and may fail\<close>
  "formatToParts interp h this vals =
     interp h (ast this) (locales this) (formatters this) (formats this) vals (message this)"

definition format ::
  "('v heap \<Rightarrow> 'e list \<Rightarrow> locales \<Rightarrow> 'f formatters \<Rightarrow> addr \<Rightarrow> 'vals \<Rightarrow> string option
       \<Rightarrow> error + 'a part list)
     \<Rightarrow> ('a \<Rightarrow> bool) \<Rightarrow> 'v heap \<Rightarrow> ('e, 'f) IntlMessageFormat \<Rightarrow> 'vals \<Rightarrow> error + 'a formatted" where
  \<comment> \<open>lines 195-220\<close>
  "format interp objTruthy h this vals =
     (case formatToParts interp h this vals of
        Inl e \<Rightarrow> Inl e
      | Inr parts \<Rightarrow> Inr (formatParts objTruthy parts))"

definition resolvedOptions ::
  "(locales \<Rightarrow> error + string list) \<Rightarrow> ('e, 'f) IntlMessageFormat \<Rightarrow> error + resolved" where
  \<comment> \<open>lines 233-235; \<open>supportedLocalesOf\<close> is \<^verbatim>\<open>Intl.NumberFormat.supportedLocalesOf\<close>, which
      throws for locales it cannot canonicalize (a \<^verbatim>\<open>RangeError\<close> for a tag that is not
      well-formed); the constructor stores \<^verbatim>\<open>locales\<close> unchecked (line 189), so the
      exception can arise here, and nothing catches it. Indexing an empty array gives
      \<^verbatim>\<open>undefined\<close>\<close>
  "resolvedOptions supportedLocalesOf this =
     (case supportedLocalesOf (locales this) of
        Inl e \<Rightarrow> Inl e
      | Inr tags \<Rightarrow> Inr \<lparr>resolved_locale = (case tags of [] \<Rightarrow> None | l # _ \<Rightarrow> Some l)\<rparr>)"

definition getAst :: "('e, 'f) IntlMessageFormat \<Rightarrow> 'e list" where
  "getAst this = ast this"

text \<open>The configuration an instance formats with: the contents of what it refers to.\<close>

definition effectiveFormats :: "'v heap \<Rightarrow> ('e, 'f) IntlMessageFormat \<Rightarrow> 'v obj obj obj" where
  "effectiveFormats h this = readFormats h (formats this)"

text \<open>
  The program state is the statics together with the store. The assignment
  \<^verbatim>\<open>IntlMessageFormat.formats = r\<close> makes the static refer to another object and changes
  no object. The methods of an instance pass \<^verbatim>\<open>this.formats\<close> down (line 228) and do not
  read the static.
\<close>

definition setStaticFormats :: "addr \<Rightarrow> 'e statics \<Rightarrow> 'e statics" where
  "setStaticFormats r st = st\<lparr>static_formats := r\<rparr>"

definition effectiveFormatsIn ::
  "'e statics \<times> 'v heap \<Rightarrow> ('e, 'f) IntlMessageFormat \<Rightarrow> 'v obj obj obj" where
  "effectiveFormatsIn state this = effectiveFormats (snd state) this"

section \<open>Formatter cache\<close>

text \<open>
  \<^verbatim>\<open>createFastMemoizeCache\<close> (lines 100-116) wraps a store, a plain object from cache keys
  to instances, in the \<^verbatim>\<open>has\<close>/\<^verbatim>\<open>get\<close>/\<^verbatim>\<open>set\<close> interface the memoiser asks for.
  (\<^verbatim>\<open>key in store\<close> also sees inherited properties; no cache key is one.) An instance
  of an \<^verbatim>\<open>Intl\<close> class is identified by its position in the list of all instances
  constructed so far, so two references are the same object exactly when they are equal.
\<close>

type_synonym ref = nat

definition cache_has :: "'i obj \<Rightarrow> string \<Rightarrow> bool" where
  "cache_has store key = (key \<in> set (keys store))"

definition cache_get :: "'i obj \<Rightarrow> string \<Rightarrow> 'i option" where
  "cache_get store key = get store key"

definition cache_set :: "string \<Rightarrow> 'i \<Rightarrow> 'i obj \<Rightarrow> 'i obj" where
  "cache_set key v store = assign key v store"

record FormatterCache =
  number :: "ref obj"
  dateTime :: "ref obj"
  pluralRules :: "ref obj"

datatype kind = NumberFormat | DateTimeFormat | PluralRules

type_synonym 'args intl = "(kind \<times> 'args) list"

definition newIntl ::
  "(kind \<Rightarrow> 'args \<Rightarrow> bool) \<Rightarrow> kind \<Rightarrow> 'args \<Rightarrow> 'args intl \<Rightarrow> (error + ref) \<times> 'args intl" where
  "newIntl accepts kind args objs =
     (if accepts kind args then (Inr (length objs), objs @ [(kind, args)])
      else (Inl (RangeError ''invalid arguments''), objs))"

text \<open>
  Modelled from the spec: the memoising wrapper \<^verbatim>\<open>memoizeIntl\<close> is the external library
  fast-memoize, which is not part of this repository. Section 4.3: the cache
  ``deterministically serializes (locales, options) into a cache key; on miss,
  constructs the instance via the corresponding external primitive constructor and
  stores it; on hit, returns the stored instance unchanged''. The serializer is a
  parameter. A constructor of \<^verbatim>\<open>Intl\<close> may reject its arguments; then nothing is stored.
\<close>

definition memoized ::
  "('args \<Rightarrow> string) \<Rightarrow> ('args \<Rightarrow> 'w \<Rightarrow> (error + 'i) \<times> 'w) \<Rightarrow> 'args \<Rightarrow> 'i obj \<times> 'w
     \<Rightarrow> (error + 'i) \<times> 'i obj \<times> 'w" where
  "memoized serializer fn args = (\<lambda>(store, w).
     let cacheKey = serializer args
     in case cache_get store cacheKey of
          Some computedValue \<Rightarrow> (Inr computedValue, store, w)
        | None \<Rightarrow>
            (case fn args w of
               (Inl e, w') \<Rightarrow> (Inl e, store, w')
             | (Inr computedValue, w') \<Rightarrow>
                 (Inr computedValue, cache_set cacheKey computedValue store, w')))"

text \<open>
  \<^verbatim>\<open>createDefaultFormatters\<close> (lines 122-146): three memoised constructors, each over the
  store of its own kind. The functions close over the stores, which they update; here
  the cache and the list of instances are passed in and returned.
\<close>

definition getNumberFormat ::
  "('args \<Rightarrow> string) \<Rightarrow> (kind \<Rightarrow> 'args \<Rightarrow> bool) \<Rightarrow> 'args \<Rightarrow> FormatterCache \<times> 'args intl
     \<Rightarrow> (error + ref) \<times> FormatterCache \<times> 'args intl" where
  "getNumberFormat serializer accepts args = (\<lambda>(cache, objs).
     case memoized serializer (newIntl accepts NumberFormat) args (number cache, objs) of
       (r, store, objs') \<Rightarrow> (r, cache\<lparr>number := store\<rparr>, objs'))"

definition getDateTimeFormat ::
  "('args \<Rightarrow> string) \<Rightarrow> (kind \<Rightarrow> 'args \<Rightarrow> bool) \<Rightarrow> 'args \<Rightarrow> FormatterCache \<times> 'args intl
     \<Rightarrow> (error + ref) \<times> FormatterCache \<times> 'args intl" where
  "getDateTimeFormat serializer accepts args = (\<lambda>(cache, objs).
     case memoized serializer (newIntl accepts DateTimeFormat) args (dateTime cache, objs) of
       (r, store, objs') \<Rightarrow> (r, cache\<lparr>dateTime := store\<rparr>, objs'))"

definition getPluralRules ::
  "('args \<Rightarrow> string) \<Rightarrow> (kind \<Rightarrow> 'args \<Rightarrow> bool) \<Rightarrow> 'args \<Rightarrow> FormatterCache \<times> 'args intl
     \<Rightarrow> (error + ref) \<times> FormatterCache \<times> 'args intl" where
  "getPluralRules serializer accepts args = (\<lambda>(cache, objs).
     case memoized serializer (newIntl accepts PluralRules) args (pluralRules cache, objs) of
       (r, store, objs') \<Rightarrow> (r, cache\<lparr>pluralRules := store\<rparr>, objs'))"

text \<open>A get call of a given kind, and a sequence of get calls on one cache.\<close>

fun getFormatter ::
  "('args \<Rightarrow> string) \<Rightarrow> (kind \<Rightarrow> 'args \<Rightarrow> bool) \<Rightarrow> kind \<Rightarrow> 'args \<Rightarrow> FormatterCache \<times> 'args intl
     \<Rightarrow> (error + ref) \<times> FormatterCache \<times> 'args intl" where
  "getFormatter serializer accepts NumberFormat = getNumberFormat serializer accepts"
| "getFormatter serializer accepts DateTimeFormat = getDateTimeFormat serializer accepts"
| "getFormatter serializer accepts PluralRules = getPluralRules serializer accepts"

fun getAll ::
  "('args \<Rightarrow> string) \<Rightarrow> (kind \<Rightarrow> 'args \<Rightarrow> bool) \<Rightarrow> (kind \<times> 'args) list
     \<Rightarrow> FormatterCache \<times> 'args intl \<Rightarrow> (error + ref) list \<times> FormatterCache \<times> 'args intl" where
  "getAll serializer accepts [] s = ([], s)"
| "getAll serializer accepts ((kind, args) # calls) s =
     (case getFormatter serializer accepts kind args s of
        (r, s') \<Rightarrow> (case getAll serializer accepts calls s' of (rs, s'') \<Rightarrow> (r # rs, s'')))"

text \<open>
  In a well-formed cache no store has a key twice, no store holds one instance under
  two keys, and every stored reference is to an instance that exists. The cache a facade
  creates for itself (lines 154-158) is empty, hence well-formed.
\<close>

fun storeOf :: "kind \<Rightarrow> FormatterCache \<Rightarrow> ref obj" where
  "storeOf NumberFormat cache = number cache"
| "storeOf DateTimeFormat cache = dateTime cache"
| "storeOf PluralRules cache = pluralRules cache"

definition store_ok :: "nat \<Rightarrow> ref obj \<Rightarrow> bool" where
  "store_ok n store =
     (distinct (keys store) \<and> distinct (map snd store) \<and> list_all (\<lambda>(k, r). r < n) store)"

definition cache_ok :: "FormatterCache \<times> 'args intl \<Rightarrow> bool" where
  "cache_ok = (\<lambda>(cache, objs).
     store_ok (length objs) (number cache) \<and> store_ok (length objs) (dateTime cache) \<and>
     store_ok (length objs) (pluralRules cache))"

definition freshCache :: FormatterCache where
  "freshCache = \<lparr>number = [], dateTime = [], pluralRules = []\<rparr>"

text \<open>
  fast-memoize's default serializer, which is in effect because lines 130-144 pass
  none: \<^verbatim>\<open>JSON.stringify\<close> of the arguments object that holds the argument array.
  \<^verbatim>\<open>JSON.stringify\<close> writes the properties of an object in the object's own order and
  leaves out a property whose value is \<^verbatim>\<open>undefined\<close>; in an array, \<^verbatim>\<open>undefined\<close> is
  written \<^verbatim>\<open>null\<close>. Option values are restricted to strings, booleans and
  \<^verbatim>\<open>undefined\<close> here.
\<close>

datatype jsval = JUndefined | JString string | JBool bool

datatype arg = LocalesArg locales | OptionsArg "jsval obj" | UndefinedArg

fun escape :: "string \<Rightarrow> string" where
  "escape [] = []"
| "escape (c # cs) =
     (if c = CHR 0x22 \<or> c = CHR 0x5C then CHR 0x5C # c # escape cs else c # escape cs)"

definition quote :: "string \<Rightarrow> string" where
  "quote s = CHR 0x22 # escape s @ [CHR 0x22]"

fun joinWith :: "string \<Rightarrow> string list \<Rightarrow> string" where
  "joinWith sep [] = []"
| "joinWith sep [x] = x"
| "joinWith sep (x # y # ys) = x @ sep @ joinWith sep (y # ys)"

fun jsonValue :: "jsval \<Rightarrow> string option" where
  "jsonValue JUndefined = None"
| "jsonValue (JString s) = Some (quote s)"
| "jsonValue (JBool b) = Some (if b then ''true'' else ''false'')"

definition jsonObject :: "jsval obj \<Rightarrow> string" where
  "jsonObject ob =
     ''{'' @ joinWith '',''
              (List.map_filter (\<lambda>(k, v). map_option (\<lambda>t. quote k @ '':'' @ t) (jsonValue v)) ob)
           @ ''}''"

fun jsonElement :: "arg \<Rightarrow> string" where
  "jsonElement (LocalesArg (Locale s)) = quote s"
| "jsonElement (LocalesArg (LocaleList ss)) = ''['' @ joinWith '','' (map quote ss) @ '']''"
| "jsonElement (OptionsArg ob) = jsonObject ob"
| "jsonElement UndefinedArg = ''null''"

definition jsonKey :: "arg list \<Rightarrow> string" where
  "jsonKey args = ''{'' @ quote ''0'' @ '':['' @ joinWith '','' (map jsonElement args) @ '']}''"

section \<open>Example inputs\<close>

text \<open>Process state with the parser unset, and a facade
  built from the empty AST.\<close>

definition noParserStatics :: "nat statics" where
  "noParserStatics = \<lparr>static_parse = None, static_formats = 0, memoizedDefaultLocale = None\<rparr>"

definition emptyAstFacade :: "(nat, unit) IntlMessageFormat" where
  "emptyAstFacade =
     \<lparr>ast = [], locales = Locale ''en'', formatters = DefaultFormatters, formats = 0,
      message = None\<rparr>"

text \<open>
  The store after the defaults were initialised and a caller built the overrides
  \<^verbatim>\<open>{number: {currency: {currency: 'USD'}, compact: {notation: 'compact'}}}\<close>, at
  \<^verbatim>\<open>Formats\<close> address 1: they name the category \<^verbatim>\<open>number\<close> and neither \<^verbatim>\<open>date\<close> nor
  \<^verbatim>\<open>time\<close>. Then the store and the facade that construction with these overrides
  produces.
\<close>

definition usdOverridesHeap :: "string heap" where
  "usdOverridesHeap = \<lparr>
     optionsObjs = optionsObjs staticFormatsHeap @
       [[(''currency'', ''USD'')], [(''notation'', ''compact'')]],
     presetObjs = presetObjs staticFormatsHeap @ [[(''currency'', 10), (''compact'', 11)]],
     formatsObjs = formatsObjs staticFormatsHeap @ [[(''number'', 3)]] \<rparr>"

definition usdHeap :: "string heap" where
  "usdHeap = \<lparr>
     optionsObjs = optionsObjs usdOverridesHeap @
       [[(''style'', ''currency''), (''currency'', ''USD'')], [(''style'', ''percent'')]],
     presetObjs = presetObjs usdOverridesHeap @
       [[(''currency'', 12), (''percent'', 13), (''compact'', 11)]],
     formatsObjs = formatsObjs usdOverridesHeap @
       [[(''number'', 4), (''date'', 1), (''time'', 2)]] \<rparr>"

definition usdFacade :: "(nat, unit) IntlMessageFormat" where
  "usdFacade =
     \<lparr>ast = [], locales = Locale ''en'', formatters = DefaultFormatters, formats = 2,
      message = None\<rparr>"

text \<open>
  A locale-negotiation primitive for the examples. ECMA-402 has
  \<^verbatim>\<open>supportedLocalesOf\<close> canonicalize the requested locales first, which throws a
  \<^verbatim>\<open>RangeError\<close> for a tag that is not structurally valid. A tag with a character other
  than a letter, a digit or a hyphen, such as \<^verbatim>\<open>en_US\<close>, is not. This primitive rejects
  such tags and the empty tag and takes every other tag as supported.
\<close>

definition tagChar :: "char \<Rightarrow> bool" where
  "tagChar c =
     (c \<in> set ''abcdefghijklmnopqrstuvwxyzABCDEFGHIJKLMNOPQRSTUVWXYZ0123456789-'')"

definition requestedLocales :: "locales \<Rightarrow> string list" where
  "requestedLocales ls = (case ls of Locale t \<Rightarrow> [t] | LocaleList ts \<Rightarrow> ts)"

definition supportedLocalesOfExample :: "locales \<Rightarrow> error + string list" where
  "supportedLocalesOfExample ls =
     (if list_all (\<lambda>t. t \<noteq> [] \<and> list_all tagChar t) (requestedLocales ls)
      then Inr (requestedLocales ls)
      else Inl (RangeError ''Incorrect locale information provided''))"

section \<open>Properties of objects\<close>

lemma keys_assign:
  "keys (assign k v ob) = (if k \<in> set (keys ob) then keys ob else keys ob @ [k])"
  by (induction ob) (auto simp: keys_def)

lemma get_assign: "get (assign k v ob) k' = (if k' = k then Some v else get ob k')"
  by (induction ob) (auto simp: get_def)

lemma assign_fresh: "k \<notin> set (keys ob) \<Longrightarrow> assign k v ob = ob @ [(k, v)]"
  by (induction ob) (auto simp: keys_def)

lemma distinct_assign: "distinct (keys ob) \<Longrightarrow> distinct (keys (assign k v ob))"
  by (simp add: keys_assign)

lemma get_None_iff: "get ob k = None \<longleftrightarrow> k \<notin> set (keys ob)"
  by (simp add: get_def keys_def map_of_eq_None_iff)

lemma get_Some_mem: "get ob k = Some v \<Longrightarrow> (k, v) \<in> set ob"
  by (simp add: get_def map_of_SomeD)

lemma obj_eqI:
  "distinct (keys xs) \<Longrightarrow> keys xs = keys ys \<Longrightarrow> (\<And>k. k \<in> set (keys xs) \<Longrightarrow> get xs k = get ys k) \<Longrightarrow> xs = ys"
proof (induction xs arbitrary: ys)
  case Nil
  then show ?case by (simp add: keys_def)
next
  case (Cons x xs)
  then obtain y ys' where ys: "ys = y # ys'" by (cases ys) (auto simp: keys_def)
  from Cons.prems ys have fst: "fst x = fst y" and ks: "keys xs = keys ys'"
    by (auto simp: keys_def)
  from Cons.prems(3)[of "fst x"] ys fst have "snd x = snd y"
    by (cases x; cases y) (auto simp: keys_def get_def)
  with fst have xy: "x = y" by (simp add: prod_eq_iff)
  have "xs = ys'"
  proof (rule Cons.IH)
    show "distinct (keys xs)" using Cons.prems(1) by (simp add: keys_def)
    show "keys xs = keys ys'" by (rule ks)
    fix k assume k: "k \<in> set (keys xs)"
    with Cons.prems(1) have "k \<noteq> fst x" by (force simp: keys_def)
    with Cons.prems(3)[of k] k ys xy show "get xs k = get ys' k"
      by (cases y) (auto simp: keys_def get_def)
  qed
  with xy ys show ?case by simp
qed

lemma key_has_value: "k \<in> set (keys ob) \<Longrightarrow> get ob k \<noteq> None"
  by (simp add: get_None_iff)

lemma spread_Nil [simp]: "spread t [] = t"
  by (simp add: spread_def)

lemma spread_Cons [simp]: "spread t ((k, v) # src) = spread (assign k v t) src"
  by (simp add: spread_def)

lemma set_keys_spread: "set (keys (spread t src)) = set (keys t) \<union> set (keys src)"
proof (induction src arbitrary: t)
  case Nil show ?case by (simp add: keys_def)
next
  case (Cons p src)
  obtain k v where p: "p = (k, v)" by (cases p)
  have "set (keys (assign k v t)) = insert k (set (keys t))"
    by (auto simp: keys_assign)
  with Cons.IH[of "assign k v t"] p show ?case by (auto simp: keys_def)
qed

lemma distinct_spread: "distinct (keys t) \<Longrightarrow> distinct (keys (spread t src))"
proof (induction src arbitrary: t)
  case Nil then show ?case by simp
next
  case (Cons p src)
  obtain k v where p: "p = (k, v)" by (cases p)
  from Cons.prems have "distinct (keys (assign k v t))" by (rule distinct_assign)
  with Cons.IH p show ?case by simp
qed

lemma keys_spread_within:
  "set (keys src) \<subseteq> set (keys t) \<Longrightarrow> keys (spread t src) = keys t"
proof (induction src arbitrary: t)
  case Nil then show ?case by simp
next
  case (Cons p src)
  obtain k v where p: "p = (k, v)" by (cases p)
  from Cons.prems p have kt: "k \<in> set (keys t)" and rest: "set (keys src) \<subseteq> set (keys t)"
    by (auto simp: keys_def)
  from kt have same: "keys (assign k v t) = keys t" by (simp add: keys_assign)
  with Cons.IH[of "assign k v t"] rest p show ?case by simp
qed

lemma get_spread_other: "k \<notin> set (keys src) \<Longrightarrow> get (spread t src) k = get t k"
proof (induction src arbitrary: t)
  case Nil then show ?case by simp
next
  case (Cons p src)
  obtain k' v where p: "p = (k', v)" by (cases p)
  from Cons.prems p have ne: "k \<noteq> k'" and rest: "k \<notin> set (keys src)" by (auto simp: keys_def)
  from Cons.IH[OF rest, of "assign k' v t"] ne p show ?case by (simp add: get_assign)
qed

lemma get_spread_in:
  "distinct (keys src) \<Longrightarrow> k \<in> set (keys src) \<Longrightarrow> get (spread t src) k = get src k"
proof (induction src arbitrary: t)
  case Nil then show ?case by (simp add: keys_def)
next
  case (Cons p src)
  obtain k' v where p: "p = (k', v)" by (cases p)
  from Cons.prems p have d: "distinct (keys src)" and fresh: "k' \<notin> set (keys src)"
    by (auto simp: keys_def)
  show ?case
  proof (cases "k = k'")
    case True
    with fresh have "get (spread (assign k' v t) src) k = get (assign k' v t) k"
      by (simp add: get_spread_other)
    with True p show ?thesis by (simp add: get_assign) (simp add: get_def)
  next
    case False
    with Cons.prems p have "k \<in> set (keys src)" by (auto simp: keys_def)
    from Cons.IH[OF d this, of "assign k' v t"] False p show ?thesis by (simp add: get_def)
  qed
qed

lemma get_spread:
  "distinct (keys src) \<Longrightarrow>
   get (spread t src) k = (case get src k of None \<Rightarrow> get t k | Some v \<Rightarrow> Some v)"
proof (cases "k \<in> set (keys src)")
  case True
  assume "distinct (keys src)"
  from get_spread_in[OF this True] True show ?thesis
    by (cases "get src k") (simp_all add: get_None_iff)
next
  case False
  then have "get src k = None" by (simp add: get_None_iff)
  with False show ?thesis by (simp add: get_spread_other)
qed

lemma spread_append: "distinct (keys (t @ src)) \<Longrightarrow> spread t src = t @ src"
proof (induction src arbitrary: t)
  case Nil then show ?case by simp
next
  case (Cons p src)
  obtain k v where p: "p = (k, v)" by (cases p)
  from Cons.prems p have "k \<notin> set (keys t)" by (auto simp: keys_def)
  then have a: "assign k v t = t @ [(k, v)]" by (rule assign_fresh)
  from Cons.prems p have "distinct (keys ((t @ [(k, v)]) @ src))" by (simp add: keys_def)
  from Cons.IH[OF this] a p show ?case by simp
qed

lemma spread_empty_id: "distinct (keys ob) \<Longrightarrow> spread [] ob = ob"
  using spread_append[of "[]" ob] by simp



lemma keys_Nil [simp]: "keys [] = []"
  by (simp add: keys_def)

lemma get_Nil [simp]: "get [] k = None"
  by (simp add: get_def)

lemma spread_again:
  assumes t: "distinct (keys t)" and q: "distinct (keys q)"
  shows "spread (spread t q) q = spread t q"
proof (rule obj_eqI)
  show "distinct (keys (spread (spread t q) q))"
    using t by (intro distinct_spread)
  show "keys (spread (spread t q) q) = keys (spread t q)"
    by (rule keys_spread_within) (simp add: set_keys_spread)
  fix k
  show "get (spread (spread t q) q) k = get (spread t q) k"
    using q by (simp add: get_spread split: option.splits)
qed

lemma spread_self: "distinct (keys q) \<Longrightarrow> spread (spread [] q) q = q"
  using spread_again[of "[]" q] by (simp add: spread_empty_id keys_def)

lemma set_keys_fold_assign:
  "set (keys (fold (\<lambda>k all. assign k (f k) all) ks acc)) = set (keys acc) \<union> set ks"
  by (induction ks arbitrary: acc) (auto simp: keys_assign)

lemma distinct_fold_assign:
  "distinct (keys acc) \<Longrightarrow> distinct (keys (fold (\<lambda>k all. assign k (f k) all) ks acc))"
  by (induction ks arbitrary: acc) (simp_all add: distinct_assign)

lemma keys_fold_assign_within:
  "set ks \<subseteq> set (keys acc) \<Longrightarrow> keys (fold (\<lambda>k all. assign k (f k) all) ks acc) = keys acc"
  by (induction ks arbitrary: acc) (simp_all add: keys_assign)

lemma get_fold_assign:
  "get (fold (\<lambda>k all. assign k (f k) all) ks acc) k
     = (if k \<in> set ks then Some (f k) else get acc k)"
  by (induction ks arbitrary: acc) (auto simp: get_assign)

lemma assignProp_own: "k \<in> set (keys ob) \<Longrightarrow> assignProp k v ob = assign k v ob"
  by (simp add: assignProp_def)

lemma assignProp_other: "k \<noteq> ''__proto__'' \<Longrightarrow> assignProp k v ob = assign k v ob"
  by (simp add: assignProp_def)

lemma fold_assignProp_own:
  "set ks \<subseteq> set (keys acc) \<Longrightarrow>
   fold (\<lambda>k all. assignProp k (f k) all) ks acc = fold (\<lambda>k all. assign k (f k) all) ks acc"
  by (induction ks arbitrary: acc) (simp_all add: assignProp_own keys_assign)

lemma fold_assignProp_new:
  "''__proto__'' \<notin> set (keys acc) \<Longrightarrow>
   fold (\<lambda>k all. assignProp k (f k) all) ks acc
     = fold (\<lambda>k all. assign k (f k) all) (filter (\<lambda>k. k \<noteq> ''__proto__'') ks) acc"
proof (induction ks arbitrary: acc)
  case Nil
  show ?case by simp
next
  case (Cons k ks)
  show ?case
  proof (cases "k = ''__proto__''")
    case True
    with Cons.prems have "assignProp k (f k) acc = acc" by (simp add: assignProp_def)
    with True Cons.IH[OF Cons.prems] show ?thesis by simp
  next
    case False
    then have a: "assignProp k (f k) acc = assign k (f k) acc" by (rule assignProp_other)
    from False Cons.prems have "''__proto__'' \<notin> set (keys (assign k (f k) acc))"
      by (auto simp: keys_assign)
    from Cons.IH[OF this] a False show ?thesis by simp
  qed
qed

section \<open>Properties of the config merger on values\<close>

lemma mergeConfig_Some:
  "mergeConfig c1 (Some c2) =
     spread (spread (spread [] c1) c2)
       (fold (\<lambda>k all. assign k (mergedPreset c1 c2 k) all)
          (filter (\<lambda>k. k \<noteq> ''__proto__'') (keys c1)) [])"
  by (simp add: mergeConfig_def fold_assignProp_new)

lemma set_keys_mergeConfig:
  "set (keys (mergeConfig c1 (Some c2))) = set (keys c1) \<union> set (keys c2)"
  by (auto simp: mergeConfig_Some set_keys_spread set_keys_fold_assign)

lemma keys_mergeConfig:
  "keys (mergeConfig c1 (Some c2)) = keys (spread (spread [] c1) c2)"
  unfolding mergeConfig_Some
  by (rule keys_spread_within) (auto simp: set_keys_fold_assign set_keys_spread)

lemma distinct_mergeConfig: "distinct (keys (mergeConfig c1 (Some c2)))"
  unfolding mergeConfig_Some
  by (intro distinct_spread) (simp add: keys_def)

lemma get_mergeConfig:
  "get (mergeConfig c1 (Some c2)) k =
     (if k \<in> set (keys c1) \<and> k \<noteq> ''__proto__'' then Some (mergedPreset c1 c2 k)
      else get (spread (spread [] c1) c2) k)"
proof -
  let ?red = "fold (\<lambda>k all. assign k (mergedPreset c1 c2 k) all)
                (filter (\<lambda>k. k \<noteq> ''__proto__'') (keys c1)) []"
  have d: "distinct (keys ?red)" by (rule distinct_fold_assign) (simp add: keys_def)
  have r: "get ?red k =
      (if k \<in> set (keys c1) \<and> k \<noteq> ''__proto__'' then Some (mergedPreset c1 c2 k) else None)"
    by (simp add: get_fold_assign)
  from d r show ?thesis
    by (simp add: mergeConfig_Some get_spread split: option.splits)
qed

lemma get_mergeConfig_new:
  assumes "distinct (keys c2)" and "k \<notin> set (keys c1)"
  shows "get (mergeConfig c1 (Some c2)) k = get c2 k"
proof -
  from assms(2) have "get (spread [] c1) k = None"
    by (simp add: get_None_iff set_keys_spread)
  with assms show ?thesis
    by (simp add: get_mergeConfig get_spread split: option.splits)
qed

lemma mergeConfig_idem:
  assumes wf: "wf_presets c2"
  shows "mergeConfig (mergeConfig c1 (Some c2)) (Some c2) = mergeConfig c1 (Some c2)"
proof (rule obj_eqI)
  let ?R = "mergeConfig c1 (Some c2)"
  from wf have d2: "distinct (keys c2)" by (simp add: wf_presets_def wf_obj_def)
  have dR: "distinct (keys ?R)" by (rule distinct_mergeConfig)
  show "distinct (keys (mergeConfig ?R (Some c2)))" by (rule distinct_mergeConfig)
  have "keys (mergeConfig ?R (Some c2)) = keys (spread ?R c2)"
    using dR by (simp add: keys_mergeConfig spread_empty_id)
  also have "\<dots> = keys ?R"
    by (rule keys_spread_within) (simp add: set_keys_mergeConfig)
  finally show "keys (mergeConfig ?R (Some c2)) = keys ?R" .
  fix k assume "k \<in> set (keys (mergeConfig ?R (Some c2)))"
  then have kR: "k \<in> set (keys ?R)" by (simp add: set_keys_mergeConfig)
  show "get (mergeConfig ?R (Some c2)) k = get ?R k"
  proof (cases "k = ''__proto__''")
    case True
    have "get (mergeConfig ?R (Some c2)) k = get (spread ?R c2) k"
      using True dR by (simp add: get_mergeConfig[of ?R] spread_empty_id)
    also have "\<dots> = (case get c2 k of None \<Rightarrow> get ?R k | Some v \<Rightarrow> Some v)"
      using d2 by (rule get_spread)
    also have "\<dots> = get ?R k"
    proof (cases "get c2 k")
      case None then show ?thesis by simp
    next
      case (Some q)
      with True d2 have "get ?R k = Some q"
        by (simp add: get_mergeConfig[of c1] get_spread)
      with Some show ?thesis by simp
    qed
    finally show ?thesis .
  next
    case False
    have lhs: "get (mergeConfig ?R (Some c2)) k = Some (mergedPreset ?R c2 k)"
      using False kR by (simp add: get_mergeConfig[of ?R])
    show ?thesis
    proof (cases "k \<in> set (keys c1)")
      case True
      let ?q = "orEmpty (get c2 k)"
      have dq: "distinct (keys ?q)"
      proof (cases "get c2 k")
        case None then show ?thesis by (simp add: orEmpty_def)
      next
        case (Some q)
        then have "(k, q) \<in> set c2" by (rule get_Some_mem)
        with wf have "wf_obj q" by (auto simp: wf_presets_def list_all_iff)
        with Some show ?thesis by (simp add: orEmpty_def wf_obj_def)
      qed
      let ?p = "mergedPreset c1 c2 k"
      have gR: "get ?R k = Some ?p" using True False by (simp add: get_mergeConfig[of c1])
      have dp: "distinct (keys ?p)"
        unfolding mergedPreset_def by (intro distinct_spread) simp
      have "mergedPreset ?R c2 k = spread (spread [] ?p) ?q"
        using gR by (simp add: mergedPreset_def orEmpty_def)
      also have "\<dots> = spread ?p ?q" using dp by (simp add: spread_empty_id)
      also have "\<dots> = ?p"
        unfolding mergedPreset_def by (rule spread_again) (simp_all add: distinct_spread dq)
      finally show ?thesis using lhs gR by simp
    next
      case nin: False
      with kR have k2: "k \<in> set (keys c2)" by (simp add: set_keys_mergeConfig)
      then obtain q where q: "get c2 k = Some q" by (cases "get c2 k") (auto simp: get_None_iff)
      then have "(k, q) \<in> set c2" by (rule get_Some_mem)
      with wf have dq: "distinct (keys q)" by (auto simp: wf_presets_def wf_obj_def list_all_iff)
      have gR: "get ?R k = Some q" using d2 nin q by (simp add: get_mergeConfig_new)
      have "mergedPreset ?R c2 k = spread (spread [] q) q"
        using gR q by (simp add: mergedPreset_def orEmpty_def)
      also have "\<dots> = q" using dq by (rule spread_self)
      finally show ?thesis using lhs gR by simp
    qed
  qed
qed

lemma mergeConfigs_Some:
  "mergeConfigs D (Some O') =
     fold (\<lambda>k all. assign k (mergeConfig (orEmpty (get D k)) (get O' k)) all) (keys D) (spread [] D)"
proof -
  have "fold (\<lambda>k all. case get D k of None \<Rightarrow> all
                        | Some c1 \<Rightarrow> assignProp k (mergeConfig c1 (get O' k)) all) (keys D) acc
      = fold (\<lambda>k all. assignProp k (mergeConfig (orEmpty (get D k)) (get O' k)) all) (keys D) acc"
    for acc
  proof (rule fold_cong)
    fix k assume "k \<in> set (keys D)"
    then obtain c1 where "get D k = Some c1"
      by (cases "get D k") (auto simp: get_None_iff)
    then show "(\<lambda>all. case get D k of None \<Rightarrow> all
                        | Some c1 \<Rightarrow> assignProp k (mergeConfig c1 (get O' k)) all)
             = (\<lambda>all. assignProp k (mergeConfig (orEmpty (get D k)) (get O' k)) all)"
      by (simp add: orEmpty_def)
  qed simp_all
  moreover have "set (keys D) \<subseteq> set (keys (spread [] D))" by (simp add: set_keys_spread)
  ultimately show ?thesis by (simp add: mergeConfigs_def fold_assignProp_own)
qed

lemma set_keys_mergeConfigs: "set (keys (mergeConfigs D cfg)) = set (keys D)"
  by (cases cfg) (auto simp: mergeConfigs_def[of D None] mergeConfigs_Some
        set_keys_fold_assign set_keys_spread)

lemma keys_mergeConfigs: "keys (mergeConfigs D (Some O')) = keys (spread [] D)"
  unfolding mergeConfigs_Some
  by (rule keys_fold_assign_within) (simp add: set_keys_spread)

lemma distinct_mergeConfigs: "distinct (keys (mergeConfigs D (Some O')))"
  by (simp add: keys_mergeConfigs distinct_spread)

lemma get_mergeConfigs:
  "get (mergeConfigs D (Some O')) k =
     (case get D k of None \<Rightarrow> None | Some c1 \<Rightarrow> Some (mergeConfig c1 (get O' k)))"
proof (cases "get D k")
  case None
  then have "k \<notin> set (keys D)" by (simp add: get_None_iff)
  then have "get (mergeConfigs D (Some O')) k = None"
    by (simp add: get_None_iff set_keys_mergeConfigs)
  with None show ?thesis by simp
next
  case (Some c1)
  then have "k \<in> set (keys D)" using get_None_iff[of D k] by auto
  with Some show ?thesis
    by (simp add: mergeConfigs_Some get_fold_assign orEmpty_def)
qed

lemma mergeConfigs_idem:
  assumes wf: "wf_formats O'"
  shows "mergeConfigs (mergeConfigs D (Some O')) (Some O') = mergeConfigs D (Some O')"
proof (rule obj_eqI)
  let ?M = "mergeConfigs D (Some O')"
  show "distinct (keys (mergeConfigs ?M (Some O')))" by (rule distinct_mergeConfigs)
  show "keys (mergeConfigs ?M (Some O')) = keys ?M"
    by (simp add: keys_mergeConfigs[of ?M] spread_empty_id distinct_mergeConfigs)
  fix k assume "k \<in> set (keys (mergeConfigs ?M (Some O')))"
  then have "k \<in> set (keys D)" by (simp add: set_keys_mergeConfigs)
  then obtain c1 where c1: "get D k = Some c1"
    by (cases "get D k") (auto simp: get_None_iff)
  have idem: "mergeConfig (mergeConfig c1 (get O' k)) (get O' k) = mergeConfig c1 (get O' k)"
  proof (cases "get O' k")
    case None then show ?thesis by (simp add: mergeConfig_def)
  next
    case (Some c2)
    then have "(k, c2) \<in> set O'" by (rule get_Some_mem)
    with wf have "wf_presets c2" by (auto simp: wf_formats_def list_all_iff)
    with Some show ?thesis by (simp add: mergeConfig_idem)
  qed
  with c1 show "get (mergeConfigs ?M (Some O')) k = get ?M k"
    by (simp add: get_mergeConfigs)
qed

section \<open>Properties of the config merger on the store\<close>

lemma keys_map_values: "keys (map (\<lambda>(k, v). (k, g v)) ob) = keys ob"
  by (induction ob) (auto simp: keys_def)

lemma get_map_values: "get (map (\<lambda>(k, v). (k, g v)) ob) k = map_option g (get ob k)"
  by (induction ob) (auto simp: get_def)

lemma assign_map_values:
  "map (\<lambda>(k, v). (k, g v)) (assign k v ob) = assign k (g v) (map (\<lambda>(k, v). (k, g v)) ob)"
  by (induction ob) auto

lemma spread_map_values:
  "map (\<lambda>(k, v). (k, g v)) (spread t s)
     = spread (map (\<lambda>(k, v). (k, g v)) t) (map (\<lambda>(k, v). (k, g v)) s)"
proof (induction s arbitrary: t)
  case Nil show ?case by simp
next
  case (Cons e s)
  obtain k v where e: "e = (k, v)" by (cases e)
  from Cons.IH[of "assign k v t"] e show ?case by (simp add: assign_map_values)
qed

lemma in_set_assign:
  "distinct (keys ob) \<Longrightarrow>
   (k', v') \<in> set (assign k v ob) \<longleftrightarrow> (k' = k \<and> v' = v) \<or> (k' \<noteq> k \<and> (k', v') \<in> set ob)"
  by (induction ob) (auto simp: keys_def rev_image_eqI)

lemma set_assign_subset: "set (assign k v ob) \<subseteq> insert (k, v) (set ob)"
  by (induction ob) auto

lemma assignProp_map_values:
  "map (\<lambda>(k, v). (k, g v)) (assignProp k v ob)
     = assignProp k (g v) (map (\<lambda>(k, v). (k, g v)) ob)"
  by (auto simp: assignProp_def assign_map_values keys_map_values)

lemma set_assignProp_subset: "set (assignProp k v ob) \<subseteq> insert (k, v) (set ob)"
  using set_assign_subset[of k v ob] by (auto simp: assignProp_def)

lemma in_set_assignProp:
  assumes "distinct (keys ob)" and "(k', v') \<in> set (assignProp k v ob)"
  shows "(k' = k \<and> v' = v) \<or> (k' \<noteq> k \<and> (k', v') \<in> set ob)"
proof (cases "k = ''__proto__'' \<and> k \<notin> set (keys ob)")
  case True
  with assms(2) have m: "(k', v') \<in> set ob" by (auto simp: assignProp_def)
  then have "k' \<in> set (keys ob)" by (force simp: keys_def)
  with True m show ?thesis by auto
next
  case False
  then have "assignProp k v ob = assign k v ob" by (auto simp: assignProp_def)
  with assms show ?thesis by (simp add: in_set_assign)
qed

lemma distinct_assignProp: "distinct (keys ob) \<Longrightarrow> distinct (keys (assignProp k v ob))"
  by (simp add: assignProp_def distinct_assign)

lemma keys_assignProp_mono: "set (keys ob) \<union> (set [k] - {''__proto__''}) \<subseteq> set (keys (assignProp k v ob))"
  by (auto simp: assignProp_def keys_assign)

lemma set_spread_subset: "set (spread t s) \<subseteq> set t \<union> set s"
proof (induction s arbitrary: t)
  case Nil show ?case by simp
next
  case (Cons e s)
  obtain k v where e: "e = (k, v)" by (cases e)
  from Cons.IH[of "assign k v t"] set_assign_subset[of k v t] e show ?case by auto
qed

lemma optionsAt_grows:
  "heap_grows h h' \<Longrightarrow> a < length (optionsObjs h) \<Longrightarrow> optionsAt h' a = optionsAt h a"
  by (auto simp: heap_grows_def optionsAt_def nth_append)

lemma presetsAt_grows:
  "heap_grows h h' \<Longrightarrow> a < length (presetObjs h) \<Longrightarrow> presetsAt h' a = presetsAt h a"
  by (auto simp: heap_grows_def presetsAt_def nth_append)

lemma formatsAt_grows: "heap_grows h h' \<Longrightarrow> formatsAt h' a = formatsAt h a"
  by (simp add: heap_grows_def formatsAt_def)

lemma heap_grows_refl: "heap_grows h h"
  by (simp add: heap_grows_def)

lemma heap_grows_trans: "heap_grows h h1 \<Longrightarrow> heap_grows h1 h2 \<Longrightarrow> heap_grows h h2"
  by (auto simp: heap_grows_def)

lemma valid_presets_grows: "heap_grows h h' \<Longrightarrow> valid_presets h ob \<Longrightarrow> valid_presets h' ob"
  by (auto simp: valid_presets_def heap_grows_def list_all_iff)

lemma readObj_grows:
  "heap_grows h h' \<Longrightarrow> valid_presets h ob \<Longrightarrow> readObj h' ob = readObj h ob"
  by (auto simp: readObj_def valid_presets_def list_all_iff optionsAt_grows)

lemma optionsOrEmpty_read:
  "optionsOrEmpty h (get ob k) = orEmpty (get (readObj h ob) k)"
  by (cases "get ob k") (simp_all add: optionsOrEmpty_def orEmpty_def readObj_def get_map_values)

lemma mergePreset_h_step:
  "mergePreset_h f1 f2 k (all, h) =
     (assignProp k (length (optionsObjs h)) all,
      h\<lparr>optionsObjs := optionsObjs h @ [mergedPreset (readObj h f1) (readObj h f2) k]\<rparr>)"
  by (simp add: mergePreset_h_def newOptions_def mergedPreset_def optionsOrEmpty_read)

lemma valid_presets_assign:
  "valid_presets h ob \<Longrightarrow> b < length (optionsObjs h) \<Longrightarrow> valid_presets h (assign k b ob)"
  using set_assign_subset[of k b ob] by (auto simp: valid_presets_def list_all_iff)

lemma valid_presets_assignProp:
  "valid_presets h ob \<Longrightarrow> b < length (optionsObjs h) \<Longrightarrow> valid_presets h (assignProp k b ob)"
  by (simp add: assignProp_def valid_presets_assign)

lemma valid_presets_spread:
  "valid_presets h t \<Longrightarrow> valid_presets h s \<Longrightarrow> valid_presets h (spread t s)"
  using set_spread_subset[of t s] by (auto simp: valid_presets_def list_all_iff)

lemma readObj_assign: "readObj h (assign k b ob) = assign k (optionsAt h b) (readObj h ob)"
  by (simp add: readObj_def assign_map_values)

lemma readObj_assignProp:
  "readObj h (assignProp k b ob) = assignProp k (optionsAt h b) (readObj h ob)"
  by (simp add: readObj_def assignProp_map_values)

lemma readObj_spread: "readObj h (spread t s) = spread (readObj h t) (readObj h s)"
  by (simp add: readObj_def spread_map_values)

lemma keys_readObj [simp]: "keys (readObj h ob) = keys ob"
  by (simp add: readObj_def keys_map_values)

lemma fold_mergePreset_h:
  assumes "fold (mergePreset_h f1 f2) ks (all, h) = (all', h')"
    and "valid_presets h f1" "valid_presets h f2" "valid_presets h all"
  shows "heap_grows h h' \<and> presetObjs h' = presetObjs h \<and> valid_presets h' all' \<and>
         readObj h' all' =
           fold (\<lambda>k acc. assignProp k (mergedPreset (readObj h f1) (readObj h f2) k) acc) ks
             (readObj h all) \<and>
         set all' \<subseteq> set all \<union> {(p, b). length (optionsObjs h) \<le> b} \<and>
         set (keys all) \<union> (set ks - {''__proto__''}) \<subseteq> set (keys all')"
  using assms
proof (induction ks arbitrary: all h)
  case Nil
  then show ?case by (simp add: heap_grows_refl)
next
  case (Cons k ks)
  let ?ob = "mergedPreset (readObj h f1) (readObj h f2) k"
  let ?a = "length (optionsObjs h)"
  let ?all1 = "assignProp k ?a all"
  let ?h1 = "h\<lparr>optionsObjs := optionsObjs h @ [?ob]\<rparr>"
  have g1: "heap_grows h ?h1" by (simp add: heap_grows_def)
  have run: "fold (mergePreset_h f1 f2) ks (?all1, ?h1) = (all', h')"
    using Cons.prems(1) by (simp add: mergePreset_h_step)
  have v1: "valid_presets ?h1 f1" and v2: "valid_presets ?h1 f2"
    using g1 Cons.prems by (auto intro: valid_presets_grows)
  have va: "valid_presets ?h1 ?all1"
    by (rule valid_presets_assignProp) (use g1 Cons.prems in \<open>auto intro: valid_presets_grows\<close>)
  note ih = Cons.IH[OF run v1 v2 va]
  have r1: "readObj ?h1 f1 = readObj h f1" and r2: "readObj ?h1 f2 = readObj h f2"
    and ra: "readObj ?h1 all = readObj h all"
    using g1 Cons.prems by (auto intro: readObj_grows)
  have new: "optionsAt ?h1 ?a = ?ob" by (simp add: optionsAt_def)
  have read1: "readObj ?h1 ?all1 = assignProp k ?ob (readObj h all)"
    by (simp only: readObj_assignProp new ra)
  have sub: "set ?all1 \<subseteq> set all \<union> {(p, b). ?a \<le> b}"
    using set_assignProp_subset[of k ?a all] by auto
  have len: "length (optionsObjs h) \<le> length (optionsObjs ?h1)" by simp
  from ih have "set all' \<subseteq> set ?all1 \<union> {(p, b). length (optionsObjs ?h1) \<le> b}" by blast
  with sub have s: "set all' \<subseteq> set all \<union> {(p, b). ?a \<le> b}" by auto
  from ih have "set (keys ?all1) \<union> (set ks - {''__proto__''}) \<subseteq> set (keys all')" by blast
  with keys_assignProp_mono[of all k ?a]
  have k: "set (keys all) \<union> (set (k # ks) - {''__proto__''}) \<subseteq> set (keys all')" by auto
  from ih g1 have g: "heap_grows h h'" by (blast intro: heap_grows_trans)
  from ih have "readObj h' all' =
      fold (\<lambda>k acc. assignProp k (mergedPreset (readObj h f1) (readObj h f2) k) acc) ks
        (assignProp k ?ob (readObj h all))"
    by (simp only: r1 r2 read1)
  with ih g s k show ?case by simp
qed


lemma valid_presetsAt: "heap_ok h \<Longrightarrow> valid_presets h (presetsAt h a)"
  by (simp add: heap_ok_def presetsAt_def list_all_length valid_presets_def)

lemma valid_formatsAt: "heap_ok h \<Longrightarrow> valid_formats h (formatsAt h a)"
  by (simp add: heap_ok_def formatsAt_def list_all_length valid_formats_def)

lemma in_set_spread:
  "distinct (keys t) \<Longrightarrow> (p, b) \<in> set (spread t s) \<Longrightarrow>
   (p, b) \<in> set s \<or> ((p, b) \<in> set t \<and> p \<notin> set (keys s))"
proof (induction s arbitrary: t)
  case Nil then show ?case by simp
next
  case (Cons e s)
  obtain k v where e: "e = (k, v)" by (cases e)
  from Cons.prems(1) have d: "distinct (keys (assign k v t))" by (rule distinct_assign)
  from Cons.prems(2) e have "(p, b) \<in> set (spread (assign k v t) s)" by simp
  from Cons.IH[OF d this] have
    "(p, b) \<in> set s \<or> ((p, b) \<in> set (assign k v t) \<and> p \<notin> set (keys s))" .
  then show ?case
    using e Cons.prems(1) by (auto simp: in_set_assign keys_def)
qed

lemma heap_ok_grows_options:
  "heap_ok h \<Longrightarrow> heap_grows h h' \<Longrightarrow> presetObjs h' = presetObjs h \<Longrightarrow> heap_ok h'"
  by (fastforce simp: heap_ok_def heap_grows_def valid_presets_def valid_formats_def list_all_iff
        intro: trans_less_add1)

lemma mergeConfig_h_Some:
  assumes run: "mergeConfig_h h c1 (Some c2) = (r, h')" and ok: "heap_ok h"
  shows "heap_grows h h' \<and> heap_ok h' \<and> r = length (presetObjs h) \<and> r < length (presetObjs h') \<and>
         readPresets h' r = mergeConfig (readPresets h c1) (Some (readPresets h c2)) \<and>
         set (presetsAt h' r) \<subseteq> {(p, b). length (optionsObjs h) \<le> b} \<union>
           set (keptPresets (presetsAt h c1) (presetsAt h c2))"
proof -
  let ?f1 = "presetsAt h c1" and ?f2 = "presetsAt h c2"
  obtain all' h1 where fo: "fold (mergePreset_h ?f1 ?f2) (keys ?f1) ([], h) = (all', h1)"
    by (cases "fold (mergePreset_h ?f1 ?f2) (keys ?f1) ([], h)")
  let ?P = "spread (spread (spread [] ?f1) ?f2) all'"
  from run fo have r: "r = length (presetObjs h1)"
    and h': "h' = h1\<lparr>presetObjs := presetObjs h1 @ [?P]\<rparr>"
    by (simp_all add: mergeConfig_h_def newPresets_def)
  have v1: "valid_presets h ?f1" and v2: "valid_presets h ?f2"
    using ok by (simp_all add: valid_presetsAt)
  have v0: "valid_presets h []" by (simp add: valid_presets_def)
  note f = fold_mergePreset_h[OF fo v1 v2 v0]
  from f have g1: "heap_grows h h1" and p1: "presetObjs h1 = presetObjs h"
    and va: "valid_presets h1 all'" by simp_all
  have g: "heap_grows h h'" using g1 p1 h' by (auto simp: heap_grows_def)
  have ok1: "heap_ok h1" using ok g1 p1 by (rule heap_ok_grows_options)
  have vP: "valid_presets h1 ?P"
    using v1 v2 va g1 v0
    by (intro valid_presets_spread) (auto intro: valid_presets_grows)
  have ok': "heap_ok h'"
    using ok1 vP unfolding h'
    by (fastforce simp: heap_ok_def valid_presets_def valid_formats_def list_all_iff
          intro: less_SucI)
  have at: "presetsAt h' r = ?P" by (simp add: presetsAt_def r h')
  have opts: "optionsAt h' = optionsAt h1" by (rule ext) (simp add: optionsAt_def h')
  have "readPresets h' r = readObj h1 ?P"
    by (simp add: readPresets_def at) (simp add: readObj_def opts)
  also have "\<dots> = spread (spread (spread [] (readObj h1 ?f1)) (readObj h1 ?f2)) (readObj h1 all')"
    by (simp add: readObj_spread) (simp add: readObj_def)
  also have "readObj h1 ?f1 = readObj h ?f1" using g1 v1 by (rule readObj_grows)
  also have "readObj h1 ?f2 = readObj h ?f2" using g1 v2 by (rule readObj_grows)
  also have "readObj h1 all' =
      fold (\<lambda>k acc. assignProp k (mergedPreset (readObj h ?f1) (readObj h ?f2) k) acc) (keys ?f1) []"
    using f by (simp add: readObj_def)
  finally have rd: "readPresets h' r = mergeConfig (readPresets h c1) (Some (readPresets h c2))"
    by (simp add: mergeConfig_def readPresets_def)
  have fresh: "set ?P \<subseteq> {(p, b). length (optionsObjs h) \<le> b} \<union> set (keptPresets ?f1 ?f2)"
  proof
    fix e assume e: "e \<in> set ?P"
    obtain p b where pb: "e = (p, b)" by (cases e)
    have d: "distinct (keys (spread (spread [] ?f1) ?f2))"
      by (intro distinct_spread) simp
    from in_set_spread[OF d] e pb
    consider "(p, b) \<in> set all'"
      | "(p, b) \<in> set (spread (spread [] ?f1) ?f2)" "p \<notin> set (keys all')" by blast
    then show "e \<in> {(p, b). length (optionsObjs h) \<le> b} \<union> set (keptPresets ?f1 ?f2)"
    proof cases
      case 1
      with f pb show ?thesis by auto
    next
      case 2
      have d1: "distinct (keys (spread [] ?f1))" by (intro distinct_spread) simp
      from f 2(2) have nk: "p \<notin> set (keys ?f1) \<or> p = ''__proto__''" by auto
      from in_set_spread[OF d1 2(1)]
      have "(p, b) \<in> set ?f2 \<or> ((p, b) \<in> set (spread [] ?f1) \<and> p \<notin> set (keys ?f2))" .
      then show ?thesis
      proof
        assume "(p, b) \<in> set ?f2"
        with pb nk show ?thesis by (auto simp: keptPresets_def)
      next
        assume a: "(p, b) \<in> set (spread [] ?f1) \<and> p \<notin> set (keys ?f2)"
        with set_spread_subset[of "[]" ?f1] have m: "(p, b) \<in> set ?f1" by auto
        then have "p \<in> set (keys ?f1)" by (force simp: keys_def)
        with nk have "p = ''__proto__''" by simp
        with m a pb show ?thesis by (auto simp: keptPresets_def)
      qed
    qed
  qed
  from g ok' r p1 h' rd fresh at show ?thesis by simp
qed


lemma mergeConfig_h_refines:
  assumes run: "mergeConfig_h h c1 c2 = (r, h')" and ok: "heap_ok h"
    and c1: "c1 < length (presetObjs h)"
  shows "heap_grows h h' \<and> heap_ok h' \<and> r < length (presetObjs h') \<and>
         readPresets h' r = mergeConfig (readPresets h c1) (map_option (readPresets h) c2)"
proof (cases c2)
  case None
  with run have "r = c1" "h' = h" by (simp_all add: mergeConfig_h_def)
  with None ok c1 show ?thesis by (simp add: heap_grows_refl mergeConfig_def)
next
  case (Some c2')
  with mergeConfig_h_Some[of h c1 c2' r h'] run ok show ?thesis by auto
qed

lemma heap_grows_imp_except: "heap_grows h h' \<Longrightarrow> heap_grows_except t h h'"
  by (simp add: heap_grows_def heap_grows_except_def formatsAt_def)

lemma heap_grows_except_trans:
  "heap_grows_except t h h1 \<Longrightarrow> heap_grows_except t h1 h2 \<Longrightarrow> heap_grows_except t h h2"
  by (auto simp: heap_grows_except_def)

lemma heap_grows_except_refl: "heap_grows_except t h h"
  by (simp add: heap_grows_except_def)

lemma optionsAt_grows_except:
  "heap_grows_except t h h' \<Longrightarrow> a < length (optionsObjs h) \<Longrightarrow> optionsAt h' a = optionsAt h a"
  by (auto simp: heap_grows_except_def optionsAt_def nth_append)

lemma presetsAt_grows_except:
  "heap_grows_except t h h' \<Longrightarrow> a < length (presetObjs h) \<Longrightarrow> presetsAt h' a = presetsAt h a"
  by (auto simp: heap_grows_except_def presetsAt_def nth_append)

lemma readPresets_grows_except:
  assumes g: "heap_grows_except t h h'" and ok: "heap_ok h" and a: "a < length (presetObjs h)"
  shows "readPresets h' a = readPresets h a"
proof -
  from ok have "valid_presets h (presetsAt h a)" by (rule valid_presetsAt)
  then have "readObj h' (presetsAt h a) = readObj h (presetsAt h a)"
    using g by (auto simp: readObj_def valid_presets_def list_all_iff optionsAt_grows_except)
  with g a show ?thesis by (simp add: readPresets_def presetsAt_grows_except)
qed

lemma readCategories_grows_except:
  assumes g: "heap_grows_except t h h'" and ok: "heap_ok h" and v: "valid_formats h ob"
  shows "readCategories h' ob = readCategories h ob"
  using v readPresets_grows_except[OF g ok]
  by (auto simp: readCategories_def valid_formats_def list_all_iff)

lemma valid_formats_grows_except:
  "heap_grows_except t h h' \<Longrightarrow> valid_formats h ob \<Longrightarrow> valid_formats h' ob"
  by (fastforce simp: valid_formats_def heap_grows_except_def list_all_iff intro: trans_less_add1)

lemma get_valid_formats:
  "valid_formats h ob \<Longrightarrow> get ob k = Some c \<Longrightarrow> c < length (presetObjs h)"
  by (auto simp: valid_formats_def list_all_iff dest!: get_Some_mem)

lemma get_readCategories: "get (readCategories h ob) k = map_option (readPresets h) (get ob k)"
  by (simp add: readCategories_def get_map_values)

lemma readCategories_assign:
  "readCategories h (assign k c ob) = assign k (readPresets h c) (readCategories h ob)"
  by (simp add: readCategories_def assign_map_values)

lemma readCategories_spread:
  "readCategories h (spread t s) = spread (readCategories h t) (readCategories h s)"
  by (simp add: readCategories_def spread_map_values)

lemma readCategories_assignProp:
  "readCategories h (assignProp k c ob) = assignProp k (readPresets h c) (readCategories h ob)"
  by (simp add: readCategories_def assignProp_map_values)

lemma valid_formats_assignProp:
  "valid_formats h ob \<Longrightarrow> c < length (presetObjs h) \<Longrightarrow> valid_formats h (assignProp k c ob)"
  using set_assignProp_subset[of k c ob] by (auto simp: valid_formats_def list_all_iff)

lemma valid_formats_assign:
  "valid_formats h ob \<Longrightarrow> c < length (presetObjs h) \<Longrightarrow> valid_formats h (assign k c ob)"
  using set_assign_subset[of k c ob] by (auto simp: valid_formats_def list_all_iff)

lemma setFormatsProp_facts:
  assumes t: "t < length (formatsObjs h)"
  shows "formatsAt (setFormatsProp t k r h) t = assignProp k r (formatsAt h t)"
    and "optionsObjs (setFormatsProp t k r h) = optionsObjs h"
    and "presetObjs (setFormatsProp t k r h) = presetObjs h"
    and "length (formatsObjs (setFormatsProp t k r h)) = length (formatsObjs h)"
    and "a \<noteq> t \<Longrightarrow> formatsAt (setFormatsProp t k r h) a = formatsAt h a"
  using t by (simp_all add: setFormatsProp_def formatsAt_def)

lemma valid_presets_same_options:
  "optionsObjs h' = optionsObjs h \<Longrightarrow> valid_presets h' = valid_presets h"
  by (rule ext) (simp add: valid_presets_def)

lemma valid_formats_same_presets:
  "presetObjs h' = presetObjs h \<Longrightarrow> valid_formats h' = valid_formats h"
  by (rule ext) (simp add: valid_formats_def)

lemma heap_ok_setFormatsProp:
  assumes ok: "heap_ok h" and t: "t < length (formatsObjs h)" and r: "r < length (presetObjs h)"
  shows "heap_ok (setFormatsProp t k r h)"
proof -
  have v: "valid_formats h (assignProp k r (formatsAt h t))"
    using ok r by (intro valid_formats_assignProp valid_formatsAt)
  have "list_all (valid_formats h) ((formatsObjs h)[t := assignProp k r (formatsAt h t)])"
    using ok v by (auto simp: heap_ok_def list_all_iff dest!: set_update_subset_insert[THEN subsetD])
  moreover have "valid_presets (setFormatsProp t k r h) = valid_presets h"
    by (rule valid_presets_same_options) (simp add: setFormatsProp_def)
  moreover have "valid_formats (setFormatsProp t k r h) = valid_formats h"
    by (rule valid_formats_same_presets) (simp add: setFormatsProp_def)
  ultimately show ?thesis
    using ok by (simp add: heap_ok_def) (simp add: setFormatsProp_def)
qed


lemma readPresets_same_stores:
  "optionsObjs h' = optionsObjs h \<Longrightarrow> presetObjs h' = presetObjs h \<Longrightarrow>
   readPresets h' a = readPresets h a"
proof -
  assume o: "optionsObjs h' = optionsObjs h" and p: "presetObjs h' = presetObjs h"
  from o have "optionsAt h' = optionsAt h" by (intro ext) (simp add: optionsAt_def)
  then show ?thesis using p by (simp add: readPresets_def readObj_def presetsAt_def)
qed

lemma mergeCategory_h_step:
  assumes ok: "heap_ok h" and t: "t < length (formatsObjs h)"
    and vD: "valid_formats h fD"
  shows "heap_ok (mergeCategory_h t fD fO k h) \<and>
         heap_grows_except t h (mergeCategory_h t fD fO k h) \<and>
         readCategories (mergeCategory_h t fD fO k h) (formatsAt (mergeCategory_h t fD fO k h) t) =
           (case get (readCategories h fD) k of
              None \<Rightarrow> readCategories h (formatsAt h t)
            | Some c1 \<Rightarrow> assignProp k (mergeConfig c1 (get (readCategories h fO) k))
                          (readCategories h (formatsAt h t)))"
proof (cases "get fD k")
  case None
  then have "mergeCategory_h t fD fO k h = h" by (simp add: mergeCategory_h_def)
  with None ok show ?thesis by (simp add: heap_grows_except_refl get_readCategories)
next
  case (Some c1)
  with vD have c1: "c1 < length (presetObjs h)" by (rule get_valid_formats)
  obtain r h1 where run: "mergeConfig_h h c1 (get fO k) = (r, h1)"
    by (cases "mergeConfig_h h c1 (get fO k)")
  let ?h2 = "setFormatsProp t k r h1"
  from Some run have h2: "mergeCategory_h t fD fO k h = ?h2" by (simp add: mergeCategory_h_def)
  from mergeConfig_h_refines[OF run ok c1]
  have g1: "heap_grows h h1" and ok1: "heap_ok h1" and r: "r < length (presetObjs h1)"
    and rd: "readPresets h1 r = mergeConfig (readPresets h c1) (map_option (readPresets h) (get fO k))"
    by simp_all
  from g1 t have t1: "t < length (formatsObjs h1)" by (simp add: heap_grows_def)
  have ok2: "heap_ok ?h2" using ok1 t1 r by (rule heap_ok_setFormatsProp)
  have g12: "heap_grows_except t h1 ?h2"
    using setFormatsProp_facts[OF t1, where k = k and r = r]
    by (simp add: heap_grows_except_def)
  have g2: "heap_grows_except t h ?h2"
    using heap_grows_imp_except[OF g1] g12 by (rule heap_grows_except_trans)
  have at: "formatsAt ?h2 t = assignProp k r (formatsAt h t)"
    using setFormatsProp_facts(1)[OF t1, where k = k and r = r] g1
    by (simp add: formatsAt_grows)
  have rp: "readPresets ?h2 r = readPresets h1 r"
    by (rule readPresets_same_stores) (simp_all add: setFormatsProp_facts[OF t1])
  have old: "readCategories ?h2 (formatsAt h t) = readCategories h (formatsAt h t)"
    using g2 ok by (rule readCategories_grows_except) (rule valid_formatsAt[OF ok])
  have "readCategories ?h2 (formatsAt ?h2 t)
        = assignProp k (mergeConfig (readPresets h c1) (map_option (readPresets h) (get fO k)))
            (readCategories h (formatsAt h t))"
    by (simp only: at readCategories_assignProp rp rd old)
  with Some ok2 g2 h2 show ?thesis by (simp add: get_readCategories)
qed

lemma fold_mergeCategory_h_refines:
  assumes "heap_ok h" and "t < length (formatsObjs h)"
    and "valid_formats h fD" and "valid_formats h fO"
  shows "heap_ok (fold (mergeCategory_h t fD fO) ks h) \<and>
         heap_grows_except t h (fold (mergeCategory_h t fD fO) ks h) \<and>
         readCategories (fold (mergeCategory_h t fD fO) ks h)
             (formatsAt (fold (mergeCategory_h t fD fO) ks h) t) =
           fold (\<lambda>k all. case get (readCategories h fD) k of
                             None \<Rightarrow> all
                           | Some c1 \<Rightarrow> assignProp k (mergeConfig c1 (get (readCategories h fO) k)) all)
             ks (readCategories h (formatsAt h t))"
  using assms
proof (induction ks arbitrary: h)
  case Nil
  then show ?case by (simp add: heap_grows_except_refl)
next
  case (Cons k ks)
  let ?h2 = "mergeCategory_h t fD fO k h"
  note st = mergeCategory_h_step[OF Cons.prems(1,2,3), of fO k]
  from st have ok2: "heap_ok ?h2" and g2: "heap_grows_except t h ?h2" by simp_all
  from g2 Cons.prems(2) have t2: "t < length (formatsObjs ?h2)"
    by (simp add: heap_grows_except_def)
  from g2 Cons.prems(3) have vD2: "valid_formats ?h2 fD" by (rule valid_formats_grows_except)
  from g2 Cons.prems(4) have vO2: "valid_formats ?h2 fO" by (rule valid_formats_grows_except)
  note ih = Cons.IH[OF ok2 t2 vD2 vO2]
  have rD: "readCategories ?h2 fD = readCategories h fD"
    using g2 Cons.prems(1,3) by (rule readCategories_grows_except)
  have rO: "readCategories ?h2 fO = readCategories h fO"
    using g2 Cons.prems(1,4) by (rule readCategories_grows_except)
  from ih have g: "heap_grows_except t h (fold (mergeCategory_h t fD fO) ks ?h2)"
    using g2 by (blast intro: heap_grows_except_trans)
  from ih have "readCategories (fold (mergeCategory_h t fD fO) ks ?h2)
             (formatsAt (fold (mergeCategory_h t fD fO) ks ?h2) t) =
           fold (\<lambda>k all. case get (readCategories h fD) k of
                             None \<Rightarrow> all
                           | Some c1 \<Rightarrow> assignProp k (mergeConfig c1 (get (readCategories h fO) k)) all)
             ks (readCategories ?h2 (formatsAt ?h2 t))"
    by (simp only: rD rO)
  moreover from st have "readCategories ?h2 (formatsAt ?h2 t) =
      (case get (readCategories h fD) k of
              None \<Rightarrow> readCategories h (formatsAt h t)
            | Some c1 \<Rightarrow> assignProp k (mergeConfig c1 (get (readCategories h fO) k))
                          (readCategories h (formatsAt h t)))" by simp
  ultimately have "readCategories (fold (mergeCategory_h t fD fO) (k # ks) h)
             (formatsAt (fold (mergeCategory_h t fD fO) (k # ks) h) t) =
           fold (\<lambda>k all. case get (readCategories h fD) k of
                             None \<Rightarrow> all
                           | Some c1 \<Rightarrow> assignProp k (mergeConfig c1 (get (readCategories h fO) k)) all)
             (k # ks) (readCategories h (formatsAt h t))"
    by (cases "get (readCategories h fD) k") simp_all
  with ih g show ?case by simp
qed

text \<open>
  The merger on the store computes what the merger on values computes: reading the
  result through the new store gives the merge of the contents of its arguments.
\<close>

lemma mergeConfigs_h_refines:
  assumes run: "mergeConfigs_h h D cfg = (r, h')" and ok: "heap_ok h"
  shows "readFormats h' r = mergeConfigs (readFormats h D) (map_option (readFormats h) cfg)"
proof (cases cfg)
  case None
  with run show ?thesis by (simp add: mergeConfigs_h_def mergeConfigs_def)
next
  case (Some ov)
  let ?fD = "formatsAt h D" and ?fO = "formatsAt h ov"
  let ?t = "length (formatsObjs h)"
  let ?h0 = "h\<lparr>formatsObjs := formatsObjs h @ [spread [] ?fD]\<rparr>"
  from run Some have r: "r = ?t" and h': "h' = fold (mergeCategory_h ?t ?fD ?fO) (keys ?fD) ?h0"
    by (auto simp: mergeConfigs_h_def newFormats_def Let_def)
  have vD: "valid_formats h ?fD" and vO: "valid_formats h ?fO"
    using ok by (simp_all add: valid_formatsAt)
  have vp: "valid_presets ?h0 = valid_presets h"
    by (rule valid_presets_same_options) simp
  have vf: "valid_formats ?h0 = valid_formats h"
    by (rule valid_formats_same_presets) simp
  have vS: "valid_formats h (spread [] ?fD)"
    using vD set_spread_subset[of "[]" ?fD] by (auto simp: valid_formats_def list_all_iff)
  have ok0: "heap_ok ?h0" using ok vS by (simp add: heap_ok_def vp vf)
  have t0: "?t < length (formatsObjs ?h0)" by simp
  have at0: "formatsAt ?h0 ?t = spread [] ?fD" by (simp add: formatsAt_def)
  have rp0: "readPresets ?h0 = readPresets h"
    by (rule ext) (rule readPresets_same_stores, simp_all)
  then have rc0: "readCategories ?h0 = readCategories h"
    by (intro ext) (simp add: readCategories_def)
  note f = fold_mergeCategory_h_refines[OF ok0 t0, of ?fD ?fO "keys ?fD"]
  have "readFormats h' r = readCategories h' (formatsAt h' ?t)"
    by (simp add: readFormats_def r)
  also have "\<dots> = fold (\<lambda>k all. case get (readCategories h ?fD) k of
                             None \<Rightarrow> all
                           | Some c1 \<Rightarrow> assignProp k (mergeConfig c1 (get (readCategories h ?fO) k)) all)
             (keys ?fD) (readCategories h (spread [] ?fD))"
    using f vD vO unfolding h' vf at0 rc0 by simp
  also have "\<dots> = mergeConfigs (readFormats h D) (Some (readFormats h ov))"
    by (simp add: mergeConfigs_def readFormats_def readCategories_spread)
       (simp add: readCategories_def keys_map_values)
  finally show ?thesis using Some by simp
qed


lemma insulated_mono:
  assumes "insulated h1 S h' c"
    and "length (presetObjs h) \<le> length (presetObjs h1)"
    and "length (optionsObjs h) \<le> length (optionsObjs h1)"
  shows "insulated h S h' c"
  using assms by (fastforce simp: insulated_def)

lemma mergeCategory_h_fresh:
  assumes ok: "heap_ok h" and t: "t < length (formatsObjs h)"
    and kD: "get fD k = Some c1" and kO: "get fO k = Some c2"
  shows "\<exists>r. formatsAt (mergeCategory_h t fD fO k h) t = assignProp k r (formatsAt h t) \<and>
             r < length (presetObjs (mergeCategory_h t fD fO k h)) \<and>
             insulated h (snd ` set (keptPresets (presetsAt h c1) (presetsAt h c2)))
               (mergeCategory_h t fD fO k h) r"
proof -
  obtain r h1 where run: "mergeConfig_h h c1 (Some c2) = (r, h1)"
    by (cases "mergeConfig_h h c1 (Some c2)")
  let ?h2 = "setFormatsProp t k r h1"
  from kD kO run have h2: "mergeCategory_h t fD fO k h = ?h2" by (simp add: mergeCategory_h_def)
  note m = mergeConfig_h_Some[OF run ok]
  from m have g1: "heap_grows h h1" and r: "r = length (presetObjs h)"
    and rl: "r < length (presetObjs h1)"
    and sub: "set (presetsAt h1 r) \<subseteq> {(p, b). length (optionsObjs h) \<le> b} \<union>
                set (keptPresets (presetsAt h c1) (presetsAt h c2))"
    by blast+
  from g1 t have t1: "t < length (formatsObjs h1)" by (simp add: heap_grows_def)
  have at: "formatsAt ?h2 t = assignProp k r (formatsAt h t)"
    using setFormatsProp_facts(1)[OF t1, where k = k and r = r] g1
    by (simp add: formatsAt_grows)
  have pa: "presetsAt ?h2 r = presetsAt h1 r"
    by (simp add: presetsAt_def setFormatsProp_facts[OF t1])
  have "insulated h (snd ` set (keptPresets (presetsAt h c1) (presetsAt h c2))) ?h2 r"
    unfolding insulated_def pa using sub r by force
  with at rl h2 show ?thesis by (auto simp: setFormatsProp_facts[OF t1])
qed

lemma mergeCategory_h_shared:
  assumes t: "t < length (formatsObjs h)"
    and kD: "get fD k = Some c1" and kO: "get fO k = None"
  shows "formatsAt (mergeCategory_h t fD fO k h) t = assignProp k c1 (formatsAt h t)"
  using kD kO setFormatsProp_facts(1)[OF t, where k = k and r = c1]
  by (simp add: mergeCategory_h_def mergeConfig_h_def)

lemma fold_mergeCategory_h_fresh:
  assumes "heap_ok h" and "t < length (formatsObjs h)"
    and "valid_formats h fD" and "valid_formats h fO"
    and "distinct (keys (formatsAt h t))"
    and "set ks \<subseteq> set (keys fD)"
    and "\<forall>k c1 c2. get fD k = Some c1 \<longrightarrow> get fO k = Some c2 \<longrightarrow>
           snd ` set (keptPresets (presetsAt h c1) (presetsAt h c2)) \<subseteq> S"
  shows "\<forall>(k, c) \<in> set (formatsAt (fold (mergeCategory_h t fD fO) ks h) t).
           (k \<notin> set ks \<and> (k, c) \<in> set (formatsAt h t)) \<or>
           (get fO k = None \<and> get fD k = Some c) \<or>
           insulated h S (fold (mergeCategory_h t fD fO) ks h) c"
  using assms
proof (induction ks arbitrary: h)
  case Nil
  then show ?case by auto
next
  case (Cons k ks)
  let ?h2 = "mergeCategory_h t fD fO k h"
  let ?h' = "fold (mergeCategory_h t fD fO) ks ?h2"
  from Cons.prems(6) obtain c1 where kD: "get fD k = Some c1"
    by (cases "get fD k") (auto simp: get_None_iff)
  note st = mergeCategory_h_step[OF Cons.prems(1,2,3), of fO k]
  from st have ok2: "heap_ok ?h2" and g2: "heap_grows_except t h ?h2" by simp_all
  from g2 Cons.prems(2) have t2: "t < length (formatsObjs ?h2)"
    by (simp add: heap_grows_except_def)
  from g2 Cons.prems(3) have vD2: "valid_formats ?h2 fD" by (rule valid_formats_grows_except)
  from g2 Cons.prems(4) have vO2: "valid_formats ?h2 fO" by (rule valid_formats_grows_except)
  have S2: "\<forall>k' a1 a2. get fD k' = Some a1 \<longrightarrow> get fO k' = Some a2 \<longrightarrow>
              snd ` set (keptPresets (presetsAt ?h2 a1) (presetsAt ?h2 a2)) \<subseteq> S"
  proof (intro allI impI)
    fix k' a1 a2 assume a1: "get fD k' = Some a1" and a2: "get fO k' = Some a2"
    from Cons.prems(3) a1 have "a1 < length (presetObjs h)" by (rule get_valid_formats)
    with g2 have 1: "presetsAt ?h2 a1 = presetsAt h a1" by (rule presetsAt_grows_except)
    from Cons.prems(4) a2 have "a2 < length (presetObjs h)" by (rule get_valid_formats)
    with g2 have 2: "presetsAt ?h2 a2 = presetsAt h a2" by (rule presetsAt_grows_except)
    from Cons.prems(7)[rule_format, OF a1 a2]
    show "snd ` set (keptPresets (presetsAt ?h2 a1) (presetsAt ?h2 a2)) \<subseteq> S"
      by (simp only: 1 2)
  qed
  have ks: "set ks \<subseteq> set (keys fD)" using Cons.prems(6) by simp
  from g2 have len: "length (presetObjs h) \<le> length (presetObjs ?h2)"
      "length (optionsObjs h) \<le> length (optionsObjs ?h2)"
    by (auto simp: heap_grows_except_def)
  note f2 = fold_mergeCategory_h_refines[OF ok2 t2 vD2 vO2, of ks]
  then have g': "heap_grows_except t ?h2 ?h'" by simp
  have step: "\<exists>r. formatsAt ?h2 t = assignProp k r (formatsAt h t) \<and>
                  ((get fO k = None \<and> r = c1) \<or> insulated h S ?h' r)"
  proof (cases "get fO k")
    case None
    from mergeCategory_h_shared[OF Cons.prems(2) kD None] None show ?thesis by blast
  next
    case (Some c2)
    from mergeCategory_h_fresh[OF Cons.prems(1,2) kD Some]
    obtain r where at: "formatsAt ?h2 t = assignProp k r (formatsAt h t)"
      and rl: "r < length (presetObjs ?h2)"
      and ins: "insulated h (snd ` set (keptPresets (presetsAt h c1) (presetsAt h c2))) ?h2 r"
      by blast
    note kS = Cons.prems(7)[rule_format, OF kD Some]
    from g' rl have "presetsAt ?h' r = presetsAt ?h2 r" by (rule presetsAt_grows_except)
    with ins kS have "insulated h S ?h' r" by (fastforce simp: insulated_def)
    with at show ?thesis by blast
  qed
  then obtain r where at: "formatsAt ?h2 t = assignProp k r (formatsAt h t)"
    and rr: "(get fO k = None \<and> r = c1) \<or> insulated h S ?h' r" by blast
  have d2: "distinct (keys (formatsAt ?h2 t))"
    unfolding at using Cons.prems(5) by (rule distinct_assignProp)
  note ih = Cons.IH[OF ok2 t2 vD2 vO2 d2 ks S2]
  show ?case
  proof (clarify)
    fix k' c assume e: "(k', c) \<in> set (formatsAt (fold (mergeCategory_h t fD fO) (k # ks) h) t)"
      and n: "\<not> insulated h S (fold (mergeCategory_h t fD fO) (k # ks) h) c"
      and m: "\<not> (k' \<notin> set (k # ks) \<and> (k', c) \<in> set (formatsAt h t))"
    from e have e': "(k', c) \<in> set (formatsAt ?h' t)" by simp
    from n have n': "\<not> insulated h S ?h' c" by simp
    from ih e' have "(k' \<notin> set ks \<and> (k', c) \<in> set (formatsAt ?h2 t)) \<or>
                     (get fO k' = None \<and> get fD k' = Some c) \<or> insulated ?h2 S ?h' c"
      by blast
    moreover have "\<not> insulated ?h2 S ?h' c"
      using n' insulated_mono[OF _ len] by blast
    moreover {
      assume a: "k' \<notin> set ks" and b: "(k', c) \<in> set (formatsAt ?h2 t)"
      from b have "(k', c) \<in> set (assignProp k r (formatsAt h t))" by (simp add: at)
      with Cons.prems(5)
      have "(k' = k \<and> c = r) \<or> (k' \<noteq> k \<and> (k', c) \<in> set (formatsAt h t))"
        by (rule in_set_assignProp)
      with a m have "k' = k \<and> c = r" by auto
      with rr n' kD have "get fO k' = None \<and> get fD k' = Some c" by auto
    }
    ultimately show "get fO k' = None \<and> get fD k' = Some c" by blast
  qed
qed


lemma mergeConfigs_h_insulated:
  assumes run: "mergeConfigs_h h D (Some ov) = (r, h')" and ok: "heap_ok h"
  shows "r = length (formatsObjs h) \<and>
         (\<forall>(k, c) \<in> set (formatsAt h' r).
            (c \<in> sharedCategories h D ov \<and> presetsAt h' c = presetsAt h c \<and>
             snd ` set (presetsAt h c) \<subseteq> keptRecords h D ov) \<or>
            insulated h (keptRecords h D ov) h' c)"
proof -
  let ?fD = "formatsAt h D" and ?fO = "formatsAt h ov"
  let ?t = "length (formatsObjs h)"
  let ?h0 = "h\<lparr>formatsObjs := formatsObjs h @ [spread [] ?fD]\<rparr>"
  let ?S = "keptRecords h D ov"
  from run have r: "r = ?t" and h': "h' = fold (mergeCategory_h ?t ?fD ?fO) (keys ?fD) ?h0"
    by (auto simp: mergeConfigs_h_def newFormats_def Let_def)
  have vD: "valid_formats h ?fD" and vO: "valid_formats h ?fO"
    using ok by (simp_all add: valid_formatsAt)
  have vp: "valid_presets ?h0 = valid_presets h"
    by (rule valid_presets_same_options) simp
  have vf: "valid_formats ?h0 = valid_formats h"
    by (rule valid_formats_same_presets) simp
  have vS: "valid_formats h (spread [] ?fD)"
    using vD set_spread_subset[of "[]" ?fD] by (auto simp: valid_formats_def list_all_iff)
  have ok0: "heap_ok ?h0" using ok vS by (simp add: heap_ok_def vp vf)
  have t0: "?t < length (formatsObjs ?h0)" by simp
  have at0: "formatsAt ?h0 ?t = spread [] ?fD" by (simp add: formatsAt_def)
  have d0: "distinct (keys (formatsAt ?h0 ?t))"
    unfolding at0 by (intro distinct_spread) simp
  have pa0: "presetsAt ?h0 = presetsAt h" by (rule ext) (simp add: presetsAt_def)
  have S0: "\<forall>k c1 c2. get ?fD k = Some c1 \<longrightarrow> get ?fO k = Some c2 \<longrightarrow>
              snd ` set (keptPresets (presetsAt ?h0 c1) (presetsAt ?h0 c2)) \<subseteq> ?S"
  proof (intro allI impI)
    fix k c1 c2 assume a1: "get ?fD k = Some c1" and a2: "get ?fO k = Some c2"
    from a1 have "(k, c1) \<in> set ?fD" by (rule get_Some_mem)
    with a2 show "snd ` set (keptPresets (presetsAt ?h0 c1) (presetsAt ?h0 c2)) \<subseteq> ?S"
      unfolding pa0 keptRecords_def by force
  qed
  have vD0: "valid_formats ?h0 ?fD" and vO0: "valid_formats ?h0 ?fO"
    using vD vO by (simp_all add: vf)
  note f = fold_mergeCategory_h_fresh[OF ok0 t0 vD0 vO0 d0 subset_refl S0]
  from fold_mergeCategory_h_refines[OF ok0 t0 vD0 vO0, of "keys ?fD"]
  have g: "heap_grows_except ?t ?h0 h'" unfolding h' by simp
  have "(c \<in> sharedCategories h D ov \<and> presetsAt h' c = presetsAt h c \<and>
         snd ` set (presetsAt h c) \<subseteq> ?S) \<or> insulated h ?S h' c"
    if e: "(k, c) \<in> set (formatsAt h' ?t)" for k c
  proof -
    from f e have "(k \<notin> set (keys ?fD) \<and> (k, c) \<in> set (spread [] ?fD)) \<or>
                  (get ?fO k = None \<and> get ?fD k = Some c) \<or> insulated ?h0 ?S h' c"
      unfolding h' at0 by blast
    moreover have "\<not> (k \<notin> set (keys ?fD) \<and> (k, c) \<in> set (spread [] ?fD))"
    proof
      assume a: "k \<notin> set (keys ?fD) \<and> (k, c) \<in> set (spread [] ?fD)"
      with set_spread_subset[of "[]" ?fD] have "(k, c) \<in> set ?fD" by auto
      then have "k \<in> set (keys ?fD)" by (force simp: keys_def)
      with a show False by simp
    qed
    moreover {
      assume n: "get ?fO k = None" and s: "get ?fD k = Some c"
      from s have m: "(k, c) \<in> set ?fD" by (rule get_Some_mem)
      with n have sh: "c \<in> sharedCategories h D ov"
        by (force simp: sharedCategories_def)
      from m n have kr: "snd ` set (presetsAt h c) \<subseteq> ?S"
        unfolding keptRecords_def by force
      from vD s have "c < length (presetObjs ?h0)" by (simp add: get_valid_formats)
      with g have "presetsAt h' c = presetsAt ?h0 c" by (rule presetsAt_grows_except)
      with sh kr have "c \<in> sharedCategories h D ov \<and> presetsAt h' c = presetsAt h c \<and>
                       snd ` set (presetsAt h c) \<subseteq> ?S"
        by (simp add: pa0)
    }
    moreover {
      assume "insulated ?h0 ?S h' c"
      then have "insulated h ?S h' c" by (simp add: insulated_def)
    }
    ultimately show ?thesis by blast
  qed
  with r show ?thesis by auto
qed

lemma readFormats_frame:
  assumes f: "formatsAt g r = formatsAt h r"
    and p: "\<forall>(k, c) \<in> set (formatsAt h r).
              presetsAt g c = presetsAt h c \<and>
              (\<forall>(p, b) \<in> set (presetsAt h c). optionsAt g b = optionsAt h b)"
  shows "readFormats g r = readFormats h r"
proof -
  have "readPresets g c = readPresets h c" if "(k, c) \<in> set (formatsAt h r)" for k c
  proof -
    from p that have pc: "presetsAt g c = presetsAt h c"
      and o: "\<forall>(p, b) \<in> set (presetsAt h c). optionsAt g b = optionsAt h b" by auto
    from o show ?thesis by (auto simp: readPresets_def readObj_def pc)
  qed
  then show ?thesis by (auto simp: readFormats_def readCategories_def f)
qed

text \<open>
  An instance constructed with overrides holds a new \<^verbatim>\<open>Formats\<close> object, so a write to
  the one of the defaults does not reach it. A write to a category reaches it only if
  it shares the category, and a write to an options record only if it keeps the record.
\<close>

lemma mergeConfigs_h_new:
  assumes run: "mergeConfigs_h h D (Some ov) = (r, h')" and D: "D < length (formatsObjs h)"
  shows "readFormats (overwriteFormats D x h') r = readFormats h' r"
proof (rule readFormats_frame)
  from run have r: "r = length (formatsObjs h)"
    by (auto simp: mergeConfigs_h_def newFormats_def Let_def)
  show "formatsAt (overwriteFormats D x h') r = formatsAt h' r"
    using D r by (simp add: formatsAt_def overwriteFormats_def)
  show "\<forall>(k, c) \<in> set (formatsAt h' r).
          presetsAt (overwriteFormats D x h') c = presetsAt h' c \<and>
          (\<forall>(p, b) \<in> set (presetsAt h' c). optionsAt (overwriteFormats D x h') b = optionsAt h' b)"
    by (simp add: presetsAt_def optionsAt_def overwriteFormats_def split_def)
qed

lemma mergeConfigs_h_frame:
  assumes run: "mergeConfigs_h h D (Some ov) = (r, h')" and ok: "heap_ok h"
  shows "c < length (presetObjs h) \<Longrightarrow> c \<notin> sharedCategories h D ov \<Longrightarrow>
         readFormats (overwritePresets c y h') r = readFormats h' r"
    and "a < length (optionsObjs h) \<Longrightarrow> a \<notin> keptRecords h D ov \<Longrightarrow>
         readFormats (overwriteOptions a z h') r = readFormats h' r"
proof -
  from mergeConfigs_h_insulated[OF run ok]
  have ins: "\<forall>(k, c) \<in> set (formatsAt h' r).
            (c \<in> sharedCategories h D ov \<and> presetsAt h' c = presetsAt h c \<and>
             snd ` set (presetsAt h c) \<subseteq> keptRecords h D ov) \<or>
            insulated h (keptRecords h D ov) h' c"
    by (rule conjunct2)
  have fresh: "(c \<in> sharedCategories h D ov \<and> presetsAt h' c = presetsAt h c \<and>
       snd ` set (presetsAt h c) \<subseteq> keptRecords h D ov) \<or>
      insulated h (keptRecords h D ov) h' c"
    if "(k, c) \<in> set (formatsAt h' r)" for k c
    using bspec[OF ins that] by simp
  show "readFormats (overwritePresets c y h') r = readFormats h' r"
    if cl: "c < length (presetObjs h)" and ns: "c \<notin> sharedCategories h D ov"
  proof (rule readFormats_frame)
    show "formatsAt (overwritePresets c y h') r = formatsAt h' r"
      by (simp add: formatsAt_def overwritePresets_def)
    show "\<forall>(k, c') \<in> set (formatsAt h' r).
            presetsAt (overwritePresets c y h') c' = presetsAt h' c' \<and>
            (\<forall>(p, b) \<in> set (presetsAt h' c'). optionsAt (overwritePresets c y h') b = optionsAt h' b)"
    proof (clarify)
      fix k c' assume "(k, c') \<in> set (formatsAt h' r)"
      from fresh[OF this] cl ns have "c' \<noteq> c" by (auto simp: insulated_def)
      then show "presetsAt (overwritePresets c y h') c' = presetsAt h' c' \<and>
            (\<forall>(p, b) \<in> set (presetsAt h' c'). optionsAt (overwritePresets c y h') b = optionsAt h' b)"
        by (simp add: presetsAt_def optionsAt_def overwritePresets_def split_def)
    qed
  qed
  show "readFormats (overwriteOptions a z h') r = readFormats h' r"
    if al: "a < length (optionsObjs h)" and na: "a \<notin> keptRecords h D ov"
  proof (rule readFormats_frame)
    show "formatsAt (overwriteOptions a z h') r = formatsAt h' r"
      by (simp add: formatsAt_def overwriteOptions_def)
    show "\<forall>(k, c') \<in> set (formatsAt h' r).
            presetsAt (overwriteOptions a z h') c' = presetsAt h' c' \<and>
            (\<forall>(p, b) \<in> set (presetsAt h' c'). optionsAt (overwriteOptions a z h') b = optionsAt h' b)"
    proof (clarify)
      fix k c' assume m: "(k, c') \<in> set (formatsAt h' r)"
      have "optionsAt (overwriteOptions a z h') b = optionsAt h' b"
        if pb: "(p, b) \<in> set (presetsAt h' c')" for p b
      proof -
        from fresh[OF m] have "b \<noteq> a"
        proof
          assume s: "c' \<in> sharedCategories h D ov \<and> presetsAt h' c' = presetsAt h c' \<and>
                     snd ` set (presetsAt h c') \<subseteq> keptRecords h D ov"
          with pb have "b \<in> snd ` set (presetsAt h c')" by (auto intro: rev_image_eqI)
          with s na show ?thesis by auto
        next
          assume "insulated h (keptRecords h D ov) h' c'"
          with pb have "length (optionsObjs h) \<le> b \<or> b \<in> keptRecords h D ov"
            by (auto simp: insulated_def)
          with al na show ?thesis by auto
        qed
        then show ?thesis by (simp add: optionsAt_def overwriteOptions_def)
      qed
      then show "presetsAt (overwriteOptions a z h') c' = presetsAt h' c' \<and>
            (\<forall>(p, b) \<in> set (presetsAt h' c'). optionsAt (overwriteOptions a z h') b = optionsAt h' b)"
        by (auto simp: presetsAt_def overwriteOptions_def)
    qed
  qed
qed

text \<open>
  The condition on the category is needed: the instance constructed with overrides that
  name only \<^verbatim>\<open>number\<close> shares the category \<^verbatim>\<open>date\<close> with the defaults, and a change of
  that category reaches it.
\<close>

lemma shared_category_write_reaches_instance:
  "1 \<in> sharedCategories usdOverridesHeap 0 1 \<and>
   get (effectiveFormats usdHeap usdFacade) ''date''
     \<noteq> get (effectiveFormats (overwritePresets 1 [] usdHeap) usdFacade) ''date''"
  by (simp add: sharedCategories_def usdOverridesHeap_def usdHeap_def usdFacade_def
        staticFormatsHeap_def effectiveFormats_def readFormats_def readCategories_def
        readPresets_def readObj_def formatsAt_def presetsAt_def optionsAt_def
        overwritePresets_def get_def)

text \<open>The configuration of a constructed instance is the result of the merge.\<close>

lemma constructor_formats:
  assumes "constructor sys st h msg locs ov opts = (Inr this, st', h')"
  shows "mergeConfigs_h h (static_formats st) ov = (formats this, h')"
proof -
  define p where "p = (case locs of
               None \<Rightarrow> (let (l, s) = defaultLocale sys st in (Locale l, s))
             | Some ls \<Rightarrow> (ls, st))"
  obtain locs' st1 where p: "p = (locs', st1)" by (cases p)
  have sf: "static_formats st1 = static_formats st"
    using p unfolding p_def
    by (cases locs) (auto simp: defaultLocale_def split: if_splits option.splits)
  from assms have c: "(case readMessage st1 msg opts of
           Inl e \<Rightarrow> (Inl e, st1, h)
         | Inr (m, None) \<Rightarrow>
             (Inl (TypeError ''A message must be provided as a String or AST.''), st1, h)
         | Inr (m, Some a) \<Rightarrow>
             (let (f, h') = mergeConfigs_h h (static_formats st1) ov
              in (Inr \<lparr>ast = a, locales = locs', formatters = formattersOf opts,
                       formats = f, message = m\<rparr>, st1, h'))) = (Inr this, st', h')"
    unfolding constructor_def p_def[symmetric] p by simp
  show ?thesis
  proof (cases "readMessage st1 msg opts")
    case (Inl e)
    with c show ?thesis by simp
  next
    case (Inr ma)
    obtain m a where ma: "ma = (m, a)" by (cases ma)
    show ?thesis
    proof (cases a)
      case None
      with c Inr ma show ?thesis by simp
    next
      case (Some ast')
      obtain f g where fg: "mergeConfigs_h h (static_formats st1) ov = (f, g)"
        by (cases "mergeConfigs_h h (static_formats st1) ov")
      with c Inr ma Some have "this = \<lparr>ast = ast', locales = locs', formatters = formattersOf opts,
                       formats = f, message = m\<rparr>" and "g = h'" by auto
      with fg sf show ?thesis by simp
    qed
  qed
qed

section \<open>Properties of the coalescing loop\<close>

lemma fold_pushPart:
  "fold (\<lambda>part all. pushPart all part) ps (acc @ [v]) = acc @ coalesceRuns (ObjectPart v # ps)"
proof (induction ps arbitrary: acc v)
  case Nil
  show ?case by (cases v) simp_all
next
  case (Cons p ps)
  show ?case
  proof (cases p)
    case (ObjectPart w)
    have "pushPart (acc @ [v]) p = (acc @ [v]) @ [w]"
      using ObjectPart by (simp add: pushPart_def)
    then have "fold (\<lambda>part all. pushPart all part) (p # ps) (acc @ [v])
               = (acc @ [v]) @ coalesceRuns (ObjectPart w # ps)"
      using Cons.IH[of "acc @ [v]" w] by simp
    then show ?thesis using ObjectPart by (cases v) simp_all
  next
    case (LiteralPart t)
    show ?thesis
    proof (cases v)
      case (Obj x)
      have "pushPart (acc @ [v]) p = (acc @ [v]) @ [Str t]"
        using LiteralPart Obj by (simp add: pushPart_def)
      then have "fold (\<lambda>part all. pushPart all part) (p # ps) (acc @ [v])
               = (acc @ [v]) @ coalesceRuns (ObjectPart (Str t) # ps)"
        using Cons.IH[of "acc @ [v]" "Str t"] by simp
      then show ?thesis using LiteralPart Obj by simp
    next
      case (Str s)
      have "pushPart (acc @ [v]) p = acc @ [Str (s @ t)]"
        using LiteralPart Str by (simp add: pushPart_def)
      then have "fold (\<lambda>part all. pushPart all part) (p # ps) (acc @ [v])
               = acc @ coalesceRuns (ObjectPart (Str (s @ t)) # ps)"
        using Cons.IH[of acc "Str (s @ t)"] by simp
      then show ?thesis using LiteralPart Str by simp
    qed
  qed
qed

lemma reduce_is_coalesceRuns:
  "fold (\<lambda>part all. pushPart all part) ps [] = coalesceRuns ps"
proof (cases ps)
  case Nil then show ?thesis by simp
next
  case (Cons p ps')
  have "pushPart [] p = [] @ [pvalue p]" by (simp add: pushPart_def)
  then have "fold (\<lambda>part all. pushPart all part) ps [] = coalesceRuns (ObjectPart (pvalue p) # ps')"
    using fold_pushPart[of ps' "[]" "pvalue p"] Cons by simp
  with Cons show ?thesis by simp
qed

lemma coalesceRuns_nonempty: "ps \<noteq> [] \<Longrightarrow> coalesceRuns ps \<noteq> []"
  by (cases ps) (auto split: val.splits)

lemma coalesceRuns_singleton_string:
  assumes "coalesceRuns ps = [v]" and "length ps \<noteq> 1"
  shows "isString v"
proof -
  from assms obtain p ps' where ps: "ps = p # ps'" and ne: "ps' \<noteq> []"
    by (cases ps) auto
  show ?thesis
  proof (cases "pvalue p")
    case (Obj x)
    with assms(1) ps have "coalesceRuns ps' = []" by simp
    with ne coalesceRuns_nonempty show ?thesis by blast
  next
    case (Str s)
    with assms(1) ps show ?thesis by auto
  qed
qed

lemma formatParts_char:
  "formatParts objTruthy parts =
     (if length parts = 1 then Single (pvalue (parts ! 0))
      else (case coalesceRuns parts of
              [] \<Rightarrow> Single (Str [])
            | [v] \<Rightarrow> Single v
            | vs \<Rightarrow> Sequence vs))"
proof (cases "length parts = 1")
  case True then show ?thesis by (simp add: formatParts_def)
next
  case False
  show ?thesis
  proof (cases "coalesceRuns parts")
    case Nil
    with False show ?thesis by (simp add: formatParts_def reduce_is_coalesceRuns)
  next
    case (Cons v vs)
    show ?thesis
    proof (cases vs)
      case Nil
      with Cons False have "isString v" by (simp add: coalesceRuns_singleton_string)
      then obtain s where "v = Str s" by (cases v) auto
      with Cons Nil False show ?thesis
        by (simp add: formatParts_def reduce_is_coalesceRuns)
    next
      case (Cons w ws)
      with \<open>coalesceRuns parts = v # vs\<close> False show ?thesis
        by (simp add: formatParts_def reduce_is_coalesceRuns)
    qed
  qed
qed

section \<open>Properties of the formatter cache\<close>

lemma store_ok_mono: "store_ok n store \<Longrightarrow> n \<le> m \<Longrightarrow> store_ok m store"
  by (fastforce simp: store_ok_def list_all_iff)

lemma memoized_newIntl:
  assumes ok: "store_ok (length objs) store"
    and run: "memoized serializer (newIntl accepts kind) args (store, objs) = (r, store', objs')"
  shows "store_ok (length objs') store' \<and> length objs \<le> length objs' \<and>
         (\<forall>k v. get store k = Some v \<longrightarrow> get store' k = Some v) \<and>
         (\<forall>v. r = Inr v \<longrightarrow> get store' (serializer args) = Some v)"
proof (cases "get store (serializer args)")
  case (Some v)
  with run have "r = Inr v" "store' = store" "objs' = objs"
    by (simp_all add: memoized_def cache_get_def)
  with ok Some show ?thesis by simp
next
  case None
  show ?thesis
  proof (cases "accepts kind args")
    case False
    with None run have "\<exists>e. r = Inl e" "store' = store" "objs' = objs"
      by (auto simp: memoized_def cache_get_def newIntl_def)
    with ok show ?thesis by auto
  next
    case True
    let ?key = "serializer args" and ?n = "length objs"
    from True None run have r: "r = Inr ?n" and s: "store' = assign ?key ?n store"
      and o: "objs' = objs @ [(kind, args)]"
      by (simp_all add: memoized_def cache_get_def newIntl_def cache_set_def)
    from None have nk: "?key \<notin> set (keys store)" by (simp add: get_None_iff)
    then have app: "assign ?key ?n store = store @ [(?key, ?n)]" by (rule assign_fresh)
    from ok have "?n \<notin> snd ` set store"
      by (auto simp: store_ok_def list_all_iff)
    with ok nk have "store_ok (Suc ?n) (store @ [(?key, ?n)])"
      by (fastforce simp: store_ok_def list_all_iff keys_def)
    moreover have "get store' k = Some v" if "get store k = Some v" for k v
    proof -
      from that have "k \<in> set (keys store)" using get_None_iff[of store k] by auto
      with nk have "k \<noteq> ?key" by auto
      with that show ?thesis by (simp add: s get_assign)
    qed
    moreover have "get store' ?key = Some ?n" by (simp add: s get_assign)
    ultimately show ?thesis using r o app s by simp
  qed
qed

lemma getFormatter_step:
  assumes ok: "cache_ok (cache, objs)"
    and run: "getFormatter serializer accepts kind args (cache, objs) = (r, cache', objs')"
  shows "cache_ok (cache', objs') \<and>
         (\<forall>kd k v. get (storeOf kd cache) k = Some v \<longrightarrow> get (storeOf kd cache') k = Some v) \<and>
         (\<forall>v. r = Inr v \<longrightarrow> get (storeOf kind cache') (serializer args) = Some v)"
proof -
  obtain st where m: "memoized serializer (newIntl accepts kind) args (storeOf kind cache, objs)
      = (r, st, objs')"
    and c': "cache' = (case kind of NumberFormat \<Rightarrow> cache\<lparr>number := st\<rparr>
                     | DateTimeFormat \<Rightarrow> cache\<lparr>dateTime := st\<rparr>
                     | PluralRules \<Rightarrow> cache\<lparr>pluralRules := st\<rparr>)"
    using run
    by (cases kind)
       (auto simp: getNumberFormat_def getDateTimeFormat_def getPluralRules_def
             split: prod.splits)
  from ok have "store_ok (length objs) (storeOf kind cache)"
    by (cases kind) (simp_all add: cache_ok_def)
  note f = memoized_newIntl[OF this m]
  have st: "storeOf kind cache' = st" using c' by (cases kind) simp_all
  have other: "storeOf kd cache' = storeOf kd cache" if "kd \<noteq> kind" for kd
    using that c' by (cases kind; cases kd) simp_all
  have okall: "store_ok (length objs') (storeOf kd cache')" for kd
  proof (cases "kd = kind")
    case True with f st show ?thesis by simp
  next
    case False
    from ok have "store_ok (length objs) (storeOf kd cache)"
      by (cases kd) (simp_all add: cache_ok_def)
    with f other[OF False] show ?thesis by (auto intro: store_ok_mono)
  qed
  have "cache_ok (cache', objs')"
    using okall[of NumberFormat] okall[of DateTimeFormat] okall[of PluralRules]
    by (simp add: cache_ok_def)
  moreover have "get (storeOf kd cache') k = Some v" if "get (storeOf kd cache) k = Some v" for kd k v
    using that f st other by (cases "kd = kind") auto
  ultimately show ?thesis using f st by auto
qed

lemma getAll_results:
  assumes "cache_ok s" and "getAll serializer accepts calls s = (rs, s')"
  shows "length rs = length calls \<and> cache_ok s' \<and>
         (\<forall>kd k v. get (storeOf kd (fst s)) k = Some v \<longrightarrow> get (storeOf kd (fst s')) k = Some v) \<and>
         (\<forall>i < length calls. \<forall>v. rs ! i = Inr v \<longrightarrow>
            get (storeOf (fst (calls ! i)) (fst s')) (serializer (snd (calls ! i))) = Some v)"
  using assms
proof (induction calls arbitrary: s rs)
  case Nil
  then show ?case by simp
next
  case (Cons c calls)
  obtain kind args where c: "c = (kind, args)" by (cases c)
  obtain cache objs where s: "s = (cache, objs)" by (cases s)
  obtain r cache1 objs1 where g: "getFormatter serializer accepts kind args (cache, objs) = (r, cache1, objs1)"
    by (cases "getFormatter serializer accepts kind args (cache, objs)")
  obtain rs1 where a: "getAll serializer accepts calls (cache1, objs1) = (rs1, s')"
    and rs: "rs = r # rs1"
    using Cons.prems(2) c s g by (auto split: prod.splits)
  from Cons.prems(1) s have ok: "cache_ok (cache, objs)" by simp
  note st = getFormatter_step[OF ok g]
  then have ok1: "cache_ok (cache1, objs1)" by simp
  note ih = Cons.IH[OF ok1 a]
  have mono: "get (storeOf kd (fst s')) k = Some v" if "get (storeOf kd (fst s)) k = Some v" for kd k v
    using that st ih s by auto
  have res: "get (storeOf (fst ((c # calls) ! i)) (fst s')) (serializer (snd ((c # calls) ! i))) = Some v"
    if i: "i < length (c # calls)" and v: "rs ! i = Inr v" for i v
  proof (cases i)
    case 0
    with v rs have "r = Inr v" by simp
    with st have "get (storeOf kind cache1) (serializer args) = Some v" by simp
    with ih have "get (storeOf kind (fst s')) (serializer args) = Some v" by auto
    with 0 c show ?thesis by simp
  next
    case (Suc j)
    with i v rs ih show ?thesis by auto
  qed
  from ih rs mono res show ?case by auto
qed

lemma store_ok_inj:
  assumes "store_ok n store" and "get store k1 = Some v" and "get store k2 = Some v"
  shows "k1 = k2"
proof -
  from assms(2,3) have m: "(k1, v) \<in> set store" "(k2, v) \<in> set store"
    by (auto dest: get_Some_mem)
  from assms(1) have "inj_on snd (set store)" by (simp add: store_ok_def distinct_map)
  from inj_onD[OF this _ m] have "(k1, v) = (k2, v)" by simp
  then show ?thesis by simp
qed

section \<open>The claims\<close>

subsection \<open>Config merger\<close>

text \<open>
  C1, as stated, fails: a preset named only in the overrides does appear in the merged
  category, because line 61 spreads \<^verbatim>\<open>c2\<close> into the result. Here the caller's preset
  \<^verbatim>\<open>compact\<close> is added to the two built-in presets of category \<^verbatim>\<open>number\<close>.
\<close>

theorem override_only_preset_is_added:
  "map_option keys (get numberDefaults ''number'') = Some [''currency'', ''percent''] \<and>
   map_option keys (get (mergeConfigs numberDefaults (Some usdOverrides)) ''number'')
     = Some [''currency'', ''percent'', ''compact'']"
  by (simp add: numberDefaults_def usdOverrides_def mergeConfigs_def mergeConfig_def
        mergedPreset_def assignProp_def spread_def keys_def get_def orEmpty_def)

text \<open>
  C1 (amended): for every default configuration \<open>D\<close> and every override argument,
  present or absent, the merged configuration has exactly the top-level categories of
  \<open>D\<close>, and each category of it has exactly the preset names of that category in \<open>D\<close>
  together with the preset names the overrides give for that category.
\<close>

theorem mergeConfigs_categories_presets:
  assumes "get D k = Some c1"
  shows "set (keys (mergeConfigs D cfg)) = set (keys D) \<and>
         (\<exists>m. get (mergeConfigs D cfg) k = Some m \<and>
              set (keys m) = set (keys c1) \<union> overridePresets cfg k)"
proof (cases cfg)
  case None
  with assms show ?thesis by (simp add: mergeConfigs_def overridePresets_def)
next
  case (Some ov)
  have m: "get (mergeConfigs D (Some ov)) k = Some (mergeConfig c1 (get ov k))"
    using assms by (simp add: get_mergeConfigs)
  have "set (keys (mergeConfig c1 (get ov k))) = set (keys c1) \<union> overridePresets (Some ov) k"
    by (cases "get ov k") (simp_all add: overridePresets_def mergeConfig_def[of c1 None]
          set_keys_mergeConfig)
  with m Some show ?thesis by (simp add: set_keys_mergeConfigs)
qed

theorem mergeConfigs_categories_presets_witness:
  "get numberDefaults ''number''
     = Some [(''currency'', [(''style'', ''currency'')]), (''percent'', [(''style'', ''percent'')])] \<and>
   set (keys (mergeConfigs numberDefaults (Some usdOverrides))) = {''number''} \<and>
   (\<exists>m. get (mergeConfigs numberDefaults (Some usdOverrides)) ''number'' = Some m \<and>
        set (keys m) = {''currency'', ''percent''} \<union> {''currency'', ''compact''})"
proof -
  have h: "get numberDefaults ''number''
     = Some [(''currency'', [(''style'', ''currency'')]), (''percent'', [(''style'', ''percent'')])]"
    by (simp add: numberDefaults_def get_def)
  have k: "set (keys numberDefaults) = {''number''}"
    by (simp add: numberDefaults_def keys_def)
  have p: "overridePresets (Some usdOverrides) ''number'' = {''currency'', ''compact''}"
    by (simp add: overridePresets_def usdOverrides_def get_def keys_def)
  have c: "set (keys [(''currency'', [(''style'', ''currency'')]),
                      (''percent'', [(''style'', ''percent'')])])
           = {''currency'', ''percent''}"
    by (simp add: keys_def)
  from mergeConfigs_categories_presets[OF h, of "Some usdOverrides"]
  have "set (keys (mergeConfigs numberDefaults (Some usdOverrides))) = {''number''} \<and>
        (\<exists>m. get (mergeConfigs numberDefaults (Some usdOverrides)) ''number'' = Some m \<and>
             set (keys m) = {''currency'', ''percent''} \<union> {''currency'', ''compact''})"
    by (simp only: k p c)
  with h show ?thesis by (rule conjI)
qed

text \<open>
  C5: merging with an absent override returns the default configuration itself. On
  values the result is \<open>D\<close>; on the store the result is the very address that was
  passed in and the store is unchanged, so no object is created.
\<close>

theorem mergeConfigs_absent_override:
  "mergeConfigs D None = D \<and> mergeConfigs_h h d None = (d, h)"
  by (simp add: mergeConfigs_def mergeConfigs_h_def)

text \<open>
  C6: the merge is idempotent: merging the result of a merge with the same overrides
  again gives an equal configuration, property for property and in the same order.
  The override objects are JavaScript objects, so none of them has a property name
  twice (\<open>wf_formats\<close>); the default configuration is arbitrary.
\<close>

theorem mergeConfigs_idempotent:
  assumes "case cfg of None \<Rightarrow> True | Some overrides \<Rightarrow> wf_formats overrides"
  shows "mergeConfigs (mergeConfigs D cfg) cfg = mergeConfigs D cfg"
proof (cases cfg)
  case None
  then show ?thesis by (simp add: mergeConfigs_def)
next
  case (Some overrides)
  with assms have "wf_formats overrides" by simp
  with Some show ?thesis by (simp add: mergeConfigs_idem)
qed

theorem mergeConfigs_idempotent_witness:
  "wf_formats usdOverrides \<and>
   mergeConfigs (mergeConfigs numberDefaults (Some usdOverrides)) (Some usdOverrides)
     = mergeConfigs numberDefaults (Some usdOverrides)"
proof -
  have h: "wf_formats usdOverrides"
    by (simp add: wf_formats_def wf_presets_def wf_obj_def usdOverrides_def keys_def)
  then have "case Some usdOverrides of None \<Rightarrow> True | Some overrides \<Rightarrow> wf_formats overrides"
    by simp
  from mergeConfigs_idempotent[OF this, of numberDefaults] h show ?thesis by simp
qed

subsection \<open>Formatter cache\<close>

text \<open>
  C3, as stated, fails in both directions, because instances are found by their
  serialized key and not by deep equality of the arguments. With \<^verbatim>\<open>JSON.stringify\<close>
  as serializer, options \<^verbatim>\<open>{style: undefined}\<close> and \<^verbatim>\<open>{}\<close> differ in a field and yet
  get the identical instance; and two options objects with the same properties in a
  different order are deep-equal and yet get distinct instances.
\<close>

theorem key_is_not_deep_equality:
  "fst (getAll jsonKey (\<lambda>kind args. True)
          [(NumberFormat, [LocalesArg (Locale ''en''), OptionsArg [(''style'', JUndefined)]]),
           (NumberFormat, [LocalesArg (Locale ''en''), OptionsArg []])]
          (freshCache, []))
     = [Inr 0, Inr 0] \<and>
   set [(''style'', JString ''currency''), (''currency'', JString ''USD'')]
     = set [(''currency'', JString ''USD''), (''style'', JString ''currency'')] \<and>
   fst (getAll jsonKey (\<lambda>kind args. True)
          [(NumberFormat, [LocalesArg (Locale ''en''),
              OptionsArg [(''style'', JString ''currency''), (''currency'', JString ''USD'')]]),
           (NumberFormat, [LocalesArg (Locale ''en''),
              OptionsArg [(''currency'', JString ''USD''), (''style'', JString ''currency'')]])]
          (freshCache, []))
     = [Inr 0, Inr 1]"
  by (simp add: getNumberFormat_def memoized_def cache_get_def cache_set_def newIntl_def
        freshCache_def jsonKey_def jsonObject_def quote_def List.map_filter_def get_def
        insert_commute)

text \<open>
  C3 (amended): for one well-formed formatter cache and any two get calls of the same
  kind that return an instance, whatever other get calls come before, between or
  after them, the two calls return the identical instance exactly when their argument
  lists serialize to the same cache key.
\<close>

theorem same_key_same_instance:
  assumes "cache_ok s" and "getAll serializer accepts calls s = (rs, s')"
    and "i < length calls" and "j < length calls" and "fst (calls ! i) = fst (calls ! j)"
    and "rs ! i = Inr a" and "rs ! j = Inr b"
  shows "a = b \<longleftrightarrow> serializer (snd (calls ! i)) = serializer (snd (calls ! j))"
proof -
  note r = getAll_results[OF assms(1,2)]
  let ?S = "storeOf (fst (calls ! i)) (fst s')"
  from r assms(3,6) have ga: "get ?S (serializer (snd (calls ! i))) = Some a" by simp
  from r assms(4,5,7) have gb: "get ?S (serializer (snd (calls ! j))) = Some b" by simp
  obtain c' o' where s': "s' = (c', o')" by (cases s')
  from r s' have "store_ok (length o') ?S"
    by (cases "fst (calls ! i)") (simp_all add: cache_ok_def)
  with ga gb show ?thesis by (auto dest: store_ok_inj)
qed

theorem same_key_same_instance_witness:
  "cache_ok (freshCache, []) \<and>
   getAll jsonKey (\<lambda>kind args. True)
      [(NumberFormat, [LocalesArg (Locale ''en''), OptionsArg [(''style'', JString ''percent'')]]),
       (NumberFormat, [LocalesArg (Locale ''en''), OptionsArg [(''style'', JString ''currency'')]]),
       (NumberFormat, [LocalesArg (Locale ''en''), OptionsArg [(''style'', JString ''percent'')]])]
      (freshCache, [])
     = ([Inr 0, Inr 1, Inr 0],
        \<lparr>number = [(jsonKey [LocalesArg (Locale ''en''), OptionsArg [(''style'', JString ''percent'')]], 0),
                    (jsonKey [LocalesArg (Locale ''en''), OptionsArg [(''style'', JString ''currency'')]], 1)],
         dateTime = [], pluralRules = []\<rparr>,
        [(NumberFormat, [LocalesArg (Locale ''en''), OptionsArg [(''style'', JString ''percent'')]]),
         (NumberFormat, [LocalesArg (Locale ''en''), OptionsArg [(''style'', JString ''currency'')]])]) \<and>
   ((0::nat) = 0 \<longleftrightarrow>
      jsonKey [LocalesArg (Locale ''en''), OptionsArg [(''style'', JString ''percent'')]]
        = jsonKey [LocalesArg (Locale ''en''), OptionsArg [(''style'', JString ''percent'')]]) \<and>
   ((0::nat) = 1 \<longleftrightarrow>
      jsonKey [LocalesArg (Locale ''en''), OptionsArg [(''style'', JString ''percent'')]]
        = jsonKey [LocalesArg (Locale ''en''), OptionsArg [(''style'', JString ''currency'')]])"
proof -
  have h1: "cache_ok (freshCache, [])"
    by (simp add: cache_ok_def store_ok_def freshCache_def keys_def)
  have h2: "getAll jsonKey (\<lambda>kind args. True)
      [(NumberFormat, [LocalesArg (Locale ''en''), OptionsArg [(''style'', JString ''percent'')]]),
       (NumberFormat, [LocalesArg (Locale ''en''), OptionsArg [(''style'', JString ''currency'')]]),
       (NumberFormat, [LocalesArg (Locale ''en''), OptionsArg [(''style'', JString ''percent'')]])]
      (freshCache, [])
     = ([Inr 0, Inr 1, Inr 0],
        \<lparr>number = [(jsonKey [LocalesArg (Locale ''en''), OptionsArg [(''style'', JString ''percent'')]], 0),
                    (jsonKey [LocalesArg (Locale ''en''), OptionsArg [(''style'', JString ''currency'')]], 1)],
         dateTime = [], pluralRules = []\<rparr>,
        [(NumberFormat, [LocalesArg (Locale ''en''), OptionsArg [(''style'', JString ''percent'')]]),
         (NumberFormat, [LocalesArg (Locale ''en''), OptionsArg [(''style'', JString ''currency'')]])])"
    by (simp add: getNumberFormat_def memoized_def cache_get_def cache_set_def newIntl_def
        freshCache_def jsonKey_def jsonObject_def quote_def List.map_filter_def get_def)
  from same_key_same_instance[OF h1 h2, of 0 2 0 0] same_key_same_instance[OF h1 h2, of 0 1 0 1]
    h1 h2
  show ?thesis by simp
qed

subsection \<open>Construction\<close>

text \<open>
  C2, as stated, fails: the constructor accepts the empty node sequence. Line 180 asks
  only whether the AST is an array.
\<close>

theorem constructor_accepts_empty_ast:
  "fst (constructor ''en'' noParserStatics staticFormatsHeap (Ast []) (Some (Locale ''en''))
          None (None :: unit Options option))
   = Inr emptyAstFacade"
  by (simp add: constructor_def readMessage_def mergeConfigs_h_def formattersOf_def
        noParserStatics_def emptyAstFacade_def)

text \<open>
  C2 (amended): the constructor accepts every node sequence, empty or not, without
  looking at its elements, and stores it as the AST. A message that is neither a string
  nor a sequence fails with a \<^verbatim>\<open>TypeError\<close>. A string is handed to the parser:
  construction fails with a \<^verbatim>\<open>TypeError\<close> when the parser reference is unset, fails
  with the parser's error when parsing fails, and otherwise accepts the parsed
  sequence.
\<close>

theorem constructor_outcome:
  "map_sum id ast (fst (constructor sys st h msg locs ov opts)) =
     (case msg of
        Ast a \<Rightarrow> Inr a
      | NotAMessage \<Rightarrow> Inl (TypeError ''A message must be provided as a String or AST.'')
      | Text s \<Rightarrow>
          (case static_parse st of
             None \<Rightarrow> Inl (TypeError
               ''IntlMessageFormat.__parse must be set to process `message` of type `string`'')
           | Some p \<Rightarrow> p s (ignoreTagOf opts)))"
  by (cases msg; cases locs)
     (auto simp: constructor_def readMessage_def defaultLocale_def
           split: option.splits sum.splits prod.splits)

text \<open>
  C7, as stated, fails: an instance constructed without overrides holds the default
  configuration object itself (\<^verbatim>\<open>mergeConfigs\<close> returns \<^verbatim>\<open>defaultConfig\<close>, line 77), so
  a later in-place write to the default is seen by the instance. Here the instance is
  constructed, then the \<^verbatim>\<open>style\<close> of the default preset \<^verbatim>\<open>number.currency\<close> is set to
  \<^verbatim>\<open>decimal\<close>, and the instance's configuration has changed with it.
\<close>

theorem default_write_reaches_instance:
  "constructor ''en'' noParserStatics staticFormatsHeap (Ast []) (Some (Locale ''en'')) None
      (None :: unit Options option)
     = (Inr emptyAstFacade, noParserStatics, staticFormatsHeap) \<and>
   get (effectiveFormats staticFormatsHeap emptyAstFacade) ''number''
     = Some [(''currency'', [(''style'', ''currency'')]), (''percent'', [(''style'', ''percent'')])] \<and>
   get (effectiveFormats (setOptionsProp 0 ''style'' ''decimal'' staticFormatsHeap) emptyAstFacade)
       ''number''
     = Some [(''currency'', [(''style'', ''decimal'')]), (''percent'', [(''style'', ''percent'')])]"
  by (simp add: constructor_def readMessage_def mergeConfigs_h_def formattersOf_def
        noParserStatics_def emptyAstFacade_def effectiveFormats_def readFormats_def
        readCategories_def readPresets_def readObj_def formatsAt_def presetsAt_def optionsAt_def
        setOptionsProp_def assignProp_def staticFormatsHeap_def get_def keys_def)

text \<open>
  C7 (amended): making the static refer to another configuration object after an
  instance was constructed never changes the instance's effective configuration. For a
  change made in place to an object of the defaults: an instance constructed without
  overrides holds the default \<^verbatim>\<open>Formats\<close> object itself, and construction created
  nothing. An instance constructed with overrides holds a new \<^verbatim>\<open>Formats\<close> object, so a
  change of the default \<^verbatim>\<open>Formats\<close> object does not change its effective configuration;
  a change of a category that existed at construction does not either, unless the
  category is one of the defaults that the overrides do not name; and a change of an
  options record that existed at construction does not either, unless the merge took
  the record over as it is: a record of such a category, a record that the overrides
  hold under a preset name that the category of the defaults does not have, or a
  record held under the preset name \<^verbatim>\<open>__proto__\<close>.
\<close>

theorem instance_insulated_from_default_writes:
  assumes "constructor sys st h msg locs ov opts = (Inr this, st', h')"
  shows "effectiveFormatsIn (setStaticFormats r st', h') this = effectiveFormatsIn (st', h') this \<and>
         (case ov of
            None \<Rightarrow> formats this = static_formats st \<and> h' = h
          | Some ov' \<Rightarrow>
              (static_formats st < length (formatsObjs h) \<longrightarrow>
                 effectiveFormats (overwriteFormats (static_formats st) x h') this
                   = effectiveFormats h' this) \<and>
              (heap_ok h \<and> c < length (presetObjs h) \<and>
               c \<notin> sharedCategories h (static_formats st) ov' \<longrightarrow>
                 effectiveFormats (overwritePresets c y h') this = effectiveFormats h' this) \<and>
              (heap_ok h \<and> a < length (optionsObjs h) \<and>
               a \<notin> keptRecords h (static_formats st) ov' \<longrightarrow>
                 effectiveFormats (overwriteOptions a z h') this = effectiveFormats h' this))"
proof -
  note run = constructor_formats[OF assms]
  have s: "effectiveFormatsIn (setStaticFormats r st', h') this = effectiveFormatsIn (st', h') this"
    by (simp add: effectiveFormatsIn_def)
  show ?thesis
  proof (cases ov)
    case None
    with run s show ?thesis by (simp add: mergeConfigs_h_def)
  next
    case (Some ov')
    note run' = run[unfolded Some]
    have 1: "effectiveFormats (overwriteFormats (static_formats st) x h') this
               = effectiveFormats h' this"
      if "static_formats st < length (formatsObjs h)"
      using mergeConfigs_h_new[OF run' that] by (simp add: effectiveFormats_def)
    have 2: "effectiveFormats (overwritePresets c y h') this = effectiveFormats h' this"
      if "heap_ok h" "c < length (presetObjs h)" "c \<notin> sharedCategories h (static_formats st) ov'"
      using mergeConfigs_h_frame(1)[OF run' that] by (simp add: effectiveFormats_def)
    have 3: "effectiveFormats (overwriteOptions a z h') this = effectiveFormats h' this"
      if "heap_ok h" "a < length (optionsObjs h)" "a \<notin> keptRecords h (static_formats st) ov'"
      using mergeConfigs_h_frame(2)[OF run' that] by (simp add: effectiveFormats_def)
    from s 1 2 3 Some show ?thesis by simp
  qed
qed

theorem instance_insulated_from_default_writes_witness:
  "constructor ''en'' noParserStatics usdOverridesHeap (Ast []) (Some (Locale ''en'')) (Some 1)
      (None :: unit Options option)
     = (Inr usdFacade, noParserStatics, usdHeap) \<and>
   effectiveFormatsIn (setStaticFormats 1 noParserStatics, usdHeap) usdFacade
     = effectiveFormatsIn (noParserStatics, usdHeap) usdFacade \<and>
   static_formats noParserStatics < length (formatsObjs usdOverridesHeap) \<and>
   effectiveFormats (overwriteFormats 0 [] usdHeap) usdFacade = effectiveFormats usdHeap usdFacade \<and>
   heap_ok usdOverridesHeap \<and>
   0 < length (presetObjs usdOverridesHeap) \<and> 0 \<notin> sharedCategories usdOverridesHeap 0 1 \<and>
   effectiveFormats (overwritePresets 0 [] usdHeap) usdFacade = effectiveFormats usdHeap usdFacade \<and>
   0 < length (optionsObjs usdOverridesHeap) \<and> 0 \<notin> keptRecords usdOverridesHeap 0 1 \<and>
   effectiveFormats (overwriteOptions 0 [(''style'', ''decimal'')] usdHeap) usdFacade
     = effectiveFormats usdHeap usdFacade \<and>
   constructor ''en'' noParserStatics staticFormatsHeap (Ast []) (Some (Locale ''en'')) None
      (None :: unit Options option)
     = (Inr emptyAstFacade, noParserStatics, staticFormatsHeap) \<and>
   formats emptyAstFacade = static_formats noParserStatics"
proof -
  have h1: "constructor ''en'' noParserStatics usdOverridesHeap (Ast []) (Some (Locale ''en''))
      (Some 1) (None :: unit Options option) = (Inr usdFacade, noParserStatics, usdHeap)"
    by (simp add: constructor_def readMessage_def formattersOf_def noParserStatics_def
          usdFacade_def usdHeap_def usdOverridesHeap_def staticFormatsHeap_def
          mergeConfigs_h_def mergeCategory_h_def
          mergeConfig_h_def mergePreset_h_def newFormats_def newPresets_def newOptions_def
          setFormatsProp_def assignProp_def formatsAt_def presetsAt_def optionsAt_def
          optionsOrEmpty_def spread_def keys_def get_def)
  have h2: "heap_ok usdOverridesHeap"
    by (simp add: heap_ok_def valid_presets_def valid_formats_def usdOverridesHeap_def
          staticFormatsHeap_def)
  have s: "static_formats noParserStatics = 0" by (simp add: noParserStatics_def)
  have h3: "static_formats noParserStatics < length (formatsObjs usdOverridesHeap)"
    by (simp add: noParserStatics_def usdOverridesHeap_def)
  have l: "0 < length (presetObjs usdOverridesHeap)" "0 < length (optionsObjs usdOverridesHeap)"
    by (simp_all add: usdOverridesHeap_def staticFormatsHeap_def)
  have sc: "sharedCategories usdOverridesHeap 0 1 = {1, 2}"
    by (simp add: sharedCategories_def usdOverridesHeap_def staticFormatsHeap_def formatsAt_def
          get_def)
  have p: "0 \<notin> sharedCategories usdOverridesHeap 0 1" using sc by simp
  have o: "0 \<notin> keptRecords usdOverridesHeap 0 1"
    by (auto simp: keptRecords_def keptPresets_def usdOverridesHeap_def staticFormatsHeap_def
          formatsAt_def presetsAt_def get_def keys_def)
  have h5: "constructor ''en'' noParserStatics staticFormatsHeap (Ast []) (Some (Locale ''en''))
      None (None :: unit Options option) = (Inr emptyAstFacade, noParserStatics, staticFormatsHeap)"
    by (simp add: constructor_def readMessage_def mergeConfigs_h_def formattersOf_def
          noParserStatics_def emptyAstFacade_def)
  from instance_insulated_from_default_writes[OF h1, of 1 "[]" 0 "[]" 0 "[(''style'', ''decimal'')]"]
    instance_insulated_from_default_writes[OF h5, of 1 "[]" 0 "[]" 0 "[]"]
  show ?thesis using h1 h2 h3 h5 l p o unfolding s by simp
qed

text \<open>
  C9: while the parser reference is unset, constructing from a string fails with a
  \<^verbatim>\<open>TypeError\<close> and yields no instance. Constructing from an AST does not consult
  the parser reference: whatever it holds, the outcome and the store are the same.
\<close>

theorem constructor_parser_reference:
  assumes "static_parse st = None"
  shows "fst (constructor sys st h (Text s) locs ov opts)
           = Inl (TypeError
               ''IntlMessageFormat.__parse must be set to process `message` of type `string`'') \<and>
         fst (constructor sys (st\<lparr>static_parse := p\<rparr>) h (Ast a) locs ov opts)
           = fst (constructor sys st h (Ast a) locs ov opts) \<and>
         snd (snd (constructor sys (st\<lparr>static_parse := p\<rparr>) h (Ast a) locs ov opts))
           = snd (snd (constructor sys st h (Ast a) locs ov opts))"
  using assms
  by (cases locs)
     (auto simp: constructor_def readMessage_def defaultLocale_def
           split: option.splits sum.splits prod.splits)

theorem constructor_parser_reference_witness:
  "static_parse noParserStatics = None \<and>
   fst (constructor ''en'' noParserStatics staticFormatsHeap (Text ''Hello'')
          (Some (Locale ''en'')) None (None :: unit Options option))
     = Inl (TypeError
         ''IntlMessageFormat.__parse must be set to process `message` of type `string`'') \<and>
   fst (constructor ''en'' (noParserStatics\<lparr>static_parse := Some (\<lambda>s t. Inr [])\<rparr>)
          staticFormatsHeap (Ast [7]) (Some (Locale ''en'')) None (None :: unit Options option))
     = fst (constructor ''en'' noParserStatics staticFormatsHeap (Ast [7])
          (Some (Locale ''en'')) None (None :: unit Options option))"
proof -
  have h: "static_parse noParserStatics = None" by (simp add: noParserStatics_def)
  from constructor_parser_reference[OF h, of "''en''" staticFormatsHeap "''Hello''"
      "Some (Locale ''en'')" None "None :: unit Options option" "Some (\<lambda>s t. Inr [])" "[7]"] h
  show ?thesis by simp
qed

text \<open>
  C8, as stated, fails: not every instance gets a record from \<^verbatim>\<open>resolvedOptions\<close>. The
  constructor stores the locales as given, here the tag \<^verbatim>\<open>en_US\<close>, which is not
  well-formed, and the locale-negotiation primitive throws a \<^verbatim>\<open>RangeError\<close> for it, which
  leaves \<^verbatim>\<open>resolvedOptions\<close>.
\<close>

theorem resolvedOptions_raises_for_ill_formed_tag:
  "fst (constructor ''en'' noParserStatics staticFormatsHeap (Ast [])
          (Some (Locale ''en_US'')) None (None :: unit Options option))
     = Inr (emptyAstFacade\<lparr>locales := Locale ''en_US''\<rparr>) \<and>
   resolvedOptions supportedLocalesOfExample (emptyAstFacade\<lparr>locales := Locale ''en_US''\<rparr>)
     = Inl (RangeError ''Incorrect locale information provided'')"
  by (simp add: constructor_def readMessage_def mergeConfigs_h_def formattersOf_def
        noParserStatics_def emptyAstFacade_def resolvedOptions_def supportedLocalesOfExample_def
        requestedLocales_def tagChar_def)

text \<open>
  C8 (amended): an instance stores the locales it was constructed with (the default
  locale when none were given). When the locale-negotiation primitive throws for the
  stored locales, \<^verbatim>\<open>resolvedOptions\<close> throws the same error; otherwise it returns a
  record whose \<^verbatim>\<open>locale\<close> is the first element of what the primitive returns
  (\<^verbatim>\<open>undefined\<close> when it returns none).
\<close>

theorem resolvedOptions_primary_locale:
  assumes "fst (constructor sys st h msg locs ov opts) = Inr this"
  shows "locales this = (case locs of None \<Rightarrow> Locale (fst (defaultLocale sys st)) | Some ls \<Rightarrow> ls) \<and>
         resolvedOptions supportedLocalesOf this
           = (case supportedLocalesOf
                     (case locs of None \<Rightarrow> Locale (fst (defaultLocale sys st)) | Some ls \<Rightarrow> ls) of
                Inl e \<Rightarrow> Inl e
              | Inr tags \<Rightarrow>
                  Inr \<lparr>resolved_locale = (case tags of [] \<Rightarrow> None | l # rest \<Rightarrow> Some l)\<rparr>)"
proof -
  from assms
  have l: "locales this = (case locs of None \<Rightarrow> Locale (fst (defaultLocale sys st)) | Some ls \<Rightarrow> ls)"
    by (cases locs)
       (auto simp: constructor_def split: option.splits sum.splits prod.splits)
  show ?thesis
    unfolding resolvedOptions_def l[symmetric] using l by simp
qed

theorem resolvedOptions_primary_locale_witness:
  "fst (constructor ''en'' noParserStatics staticFormatsHeap (Ast [])
          (Some (LocaleList [''fr'', ''en''])) None (None :: unit Options option))
     = Inr (emptyAstFacade\<lparr>locales := LocaleList [''fr'', ''en'']\<rparr>) \<and>
   resolvedOptions supportedLocalesOfExample
        (emptyAstFacade\<lparr>locales := LocaleList [''fr'', ''en'']\<rparr>)
     = Inr \<lparr>resolved_locale = Some ''fr''\<rparr>"
proof -
  have h: "fst (constructor ''en'' noParserStatics staticFormatsHeap (Ast [])
          (Some (LocaleList [''fr'', ''en''])) None (None :: unit Options option))
     = Inr (emptyAstFacade\<lparr>locales := LocaleList [''fr'', ''en'']\<rparr>)"
    by (simp add: constructor_def readMessage_def mergeConfigs_h_def formattersOf_def
        noParserStatics_def emptyAstFacade_def)
  have p: "supportedLocalesOfExample (LocaleList [''fr'', ''en'']) = Inr [''fr'', ''en'']"
    by (simp add: supportedLocalesOfExample_def requestedLocales_def tagChar_def)
  from resolvedOptions_primary_locale[OF h, of supportedLocalesOfExample] p
  show ?thesis using h by simp
qed

subsection \<open>Formatting\<close>

text \<open>
  C4, as stated, fails: when the parts are not exactly one, \<^verbatim>\<open>format\<close> does not always
  return a sequence (lines 216-218). Parts that coalesce into a single string, here two
  adjacent literal parts, come back as that bare string, and no parts at all come back
  as the empty string.
\<close>

theorem format_bare_result_for_several_parts:
  "format (\<lambda>h a l f fm v m. Inr [LiteralPart ''a'', LiteralPart ''b'']) (\<lambda>x :: unit. True)
      staticFormatsHeap emptyAstFacade () = Inr (Single (Str ''ab'')) \<and>
   format (\<lambda>h a l f fm v m. Inr []) (\<lambda>x :: unit. True)
      staticFormatsHeap emptyAstFacade () = Inr (Single (Str ''''))"
  by (simp add: format_def formatToParts_def formatParts_def pushPart_def)

text \<open>
  C4 (amended): when \<^verbatim>\<open>formatToParts\<close> yields exactly one part, \<^verbatim>\<open>format\<close> returns
  that part's bare value. Otherwise it coalesces the parts in order: every literal part
  is appended to the element before it when that element is a string, and every other
  part is an element of its own, so each run of adjacent literal parts becomes one
  string. The coalesced elements are returned as a sequence when there are two or
  more of them, as the bare element when there is one, and as the empty string when
  there is none.
\<close>

theorem format_coalesces:
  assumes "formatToParts interp h this vals = Inr parts"
  shows "format interp objTruthy h this vals =
           Inr (if length parts = 1 then Single (pvalue (parts ! 0))
                else (case coalesceRuns parts of
                        [] \<Rightarrow> Single (Str [])
                      | [v] \<Rightarrow> Single v
                      | vs \<Rightarrow> Sequence vs))"
  using assms by (simp add: format_def formatParts_char)

theorem format_coalesces_witness:
  "formatToParts
      (\<lambda>h a l f fm v m. Inr [LiteralPart ''You have '', ObjectPart (Obj (5 :: nat)),
                             LiteralPart '' new'', LiteralPart '' items''])
      staticFormatsHeap emptyAstFacade ()
     = Inr [LiteralPart ''You have '', ObjectPart (Obj 5), LiteralPart '' new'',
            LiteralPart '' items''] \<and>
   format
      (\<lambda>h a l f fm v m. Inr [LiteralPart ''You have '', ObjectPart (Obj (5 :: nat)),
                             LiteralPart '' new'', LiteralPart '' items''])
      (\<lambda>x. True) staticFormatsHeap emptyAstFacade ()
     = Inr (Sequence [Str ''You have '', Obj 5, Str '' new items''])"
proof -
  have h: "formatToParts
      (\<lambda>h a l f fm v m. Inr [LiteralPart ''You have '', ObjectPart (Obj (5 :: nat)),
                             LiteralPart '' new'', LiteralPart '' items''])
      staticFormatsHeap emptyAstFacade ()
     = Inr [LiteralPart ''You have '', ObjectPart (Obj 5), LiteralPart '' new'',
            LiteralPart '' items'']"
    by (simp add: formatToParts_def)
  from format_coalesces[OF h, of "\<lambda>x. True"] h show ?thesis by simp
qed

text \<open>
  C10: whenever \<^verbatim>\<open>formatToParts\<close> returns the empty part sequence, \<^verbatim>\<open>format\<close> returns
  the empty string: a bare string, neither a sequence nor an error.
\<close>

theorem format_no_parts:
  assumes "formatToParts interp h this vals = Inr []"
  shows "format interp objTruthy h this vals = Inr (Single (Str ''''))"
  using assms by (simp add: format_def formatParts_def)

theorem format_no_parts_witness:
  "formatToParts (\<lambda>h a l f fm v m. if a = [] then Inr [] else Inl (FormatError ''unsupported''))
      staticFormatsHeap emptyAstFacade ()
     = (Inr [] :: error + nat part list) \<and>
   format (\<lambda>h a l f fm v m. if a = [] then Inr [] else Inl (FormatError ''unsupported''))
      (\<lambda>x :: nat. True) staticFormatsHeap emptyAstFacade ()
     = Inr (Single (Str ''''))"
proof -
  have h: "formatToParts
      (\<lambda>h a l f fm v m. if a = [] then Inr [] else Inl (FormatError ''unsupported''))
      staticFormatsHeap emptyAstFacade ()
     = (Inr [] :: error + nat part list)"
    by (simp add: formatToParts_def emptyAstFacade_def)
  from format_no_parts[OF h, of "\<lambda>x. True"] h show ?thesis by simp
qed


end
